theory Spec2Isabelle
  imports Main "HOL-Library.Sublist" "HOL-Library.Multiset"
begin

section \<open>The couple bucket-list backend (backend/server.py)\<close>

text \<open>
  The service is a set of request handlers over four MongoDB collections. Each handler is
  embedded as a function from the store to a result and the store after the request.
  Everything the handlers take from outside the program is an argument of the model:
  the clock (\<open>now\<close>), the hexadecimal text of each \<open>uuid.uuid4()\<close> drawn, the
  successive outputs of \<open>generate_friend_code()\<close>, the bcrypt hash and check of
  \<open>pwd_context\<close>, and the answer of the external identity service.
\<close>

subsection \<open>Python and MongoDB primitives\<close>

type_synonym time = int

text \<open>Truth value of an \<open>Optional[str]\<close>: \<open>None\<close> and the empty string are false.\<close>

fun truthy :: "string option \<Rightarrow> bool" where
  "truthy None = False"
| "truthy (Some s) = (s \<noteq> [])"

text \<open>
  \<open>str.lower()\<close> on the ASCII range: the letters \<open>A\<close> to \<open>Z\<close> are mapped to \<open>a\<close> to
  \<open>z\<close>. Python also lowers letters outside ASCII; here every other byte is left as it
  is, so \<open>lower\<close> agrees with \<open>str.lower()\<close> on ASCII strings only, and it is applied
  to such strings only in what follows.
\<close>

definition lower_char :: "char \<Rightarrow> char" where
  "lower_char c =
     (let n = (of_char c :: nat) in if 65 \<le> n \<and> n \<le> 90 then char_of (n + 32) else c)"

definition lower :: "string \<Rightarrow> string" where
  "lower s = map lower_char s"

text \<open>
  \<open>s.replace(old, new)\<close> for a non-empty \<open>old\<close>: every non-overlapping occurrence,
  scanning from the left, is replaced.
\<close>

function str_replace :: "string \<Rightarrow> string \<Rightarrow> string \<Rightarrow> string" where
  "str_replace old new [] = []"
| "str_replace old new (c # cs) =
     (if old \<noteq> [] \<and> prefix old (c # cs)
      then new @ str_replace old new (drop (length old) (c # cs))
      else c # str_replace old new cs)"
  by pat_completeness auto
termination
  by (relation "measure (\<lambda>(old, new, s). length s)") (auto simp: neq_Nil_conv)

text \<open>
  A collection is the list of its documents in insertion order. \<open>find_one\<close> returns the
  first document that matches, \<open>update_one\<close> and \<open>delete_one\<close> change the first
  document that matches, \<open>insert_one\<close> appends.
\<close>

abbreviation find_one :: "('a \<Rightarrow> bool) \<Rightarrow> 'a list \<Rightarrow> 'a option" where
  "find_one q coll \<equiv> List.find q coll"

definition insert_one :: "'a \<Rightarrow> 'a list \<Rightarrow> 'a list" where
  "insert_one d coll = coll @ [d]"

fun update_one :: "('a \<Rightarrow> bool) \<Rightarrow> ('a \<Rightarrow> 'a) \<Rightarrow> 'a list \<Rightarrow> 'a list" where
  "update_one q f [] = []"
| "update_one q f (d # ds) = (if q d then f d # ds else d # update_one q f ds)"

fun delete_one :: "('a \<Rightarrow> bool) \<Rightarrow> 'a list \<Rightarrow> 'a list" where
  "delete_one q [] = []"
| "delete_one q (d # ds) = (if q d then ds else d # delete_one q ds)"

definition deleted_count :: "('a \<Rightarrow> bool) \<Rightarrow> 'a list \<Rightarrow> nat" where
  "deleted_count q coll = (case find_one q coll of None \<Rightarrow> 0 | Some d \<Rightarrow> 1)"

subsection \<open>Documents\<close>

record user =
  user_id :: string
  email :: string
  name :: string
  picture :: "string option"
  friend_code :: string
  partner_id :: "string option"
  created_at :: time

text \<open>
  A document of \<open>db.users\<close> has the fields of the \<open>User\<close> model and, for accounts
  made by \<open>register\<close>, the key \<open>password_hash\<close>. \<open>User(**user_doc)\<close> keeps the
  model's fields.
\<close>

record user_doc = user +
  password_hash :: "string option"

definition User :: "user_doc \<Rightarrow> user" where
  "User d = user.truncate d"

record session =
  sess_user_id :: string
  session_token :: string
  expires_at :: time
  sess_created_at :: time

record bucket_item =
  item_id :: string
  title :: string
  category :: string
  created_by :: string
  item_created_at :: time
  completed :: bool
  shared_with :: "string list"

record completed_item =
  completed_id :: string
  c_item_id :: string
  c_title :: string
  c_category :: string
  photo_base64 :: string
  c_notes :: "string option"
  completed_at :: time
  completed_by :: string

text \<open>The answer of the external identity service (\<open>SessionDataResponse\<close>).\<close>

record session_data =
  sd_id :: string
  sd_email :: string
  sd_name :: string
  sd_picture :: "string option"
  sd_session_token :: string

record store =
  users :: "user_doc list"
  user_sessions :: "session list"
  bucket_items :: "bucket_item list"
  completed_items :: "completed_item list"

definition empty_store :: store where
  "empty_store = \<lparr>users = [], user_sessions = [], bucket_items = [], completed_items = []\<rparr>"

text \<open>
  One constructor for each \<open>HTTPException\<close> the handlers raise, named by the error kind;
  \<open>status_code\<close> and \<open>detail\<close> give what the source raises. \<open>ServerError\<close> is an
  uncaught Python exception (\<open>user_doc.get\<close> on \<open>None\<close>).
\<close>

datatype error =
    NotAuthenticated | InvalidSession | SessionExpired | UserNotFound
  | EmailTaken | InvalidCredentials | OAuthOnlyAccount
  | SessionIdRequired | InvalidSessionId
  | AlreadyPaired | FriendCodeNotFound | SelfPairing | TargetAlreadyPaired
  | NoPartner | ItemNotFound | NotFound | ServerError

fun status_code :: "error \<Rightarrow> nat" where
  "status_code NotAuthenticated = 401"
| "status_code InvalidSession = 401"
| "status_code SessionExpired = 401"
| "status_code UserNotFound = 404"
| "status_code EmailTaken = 400"
| "status_code InvalidCredentials = 401"
| "status_code OAuthOnlyAccount = 401"
| "status_code SessionIdRequired = 400"
| "status_code InvalidSessionId = 401"
| "status_code AlreadyPaired = 400"
| "status_code FriendCodeNotFound = 404"
| "status_code SelfPairing = 400"
| "status_code TargetAlreadyPaired = 400"
| "status_code NoPartner = 400"
| "status_code ItemNotFound = 404"
| "status_code NotFound = 404"
| "status_code ServerError = 500"

fun detail :: "error \<Rightarrow> string" where
  "detail NotAuthenticated = ''Not authenticated''"
| "detail InvalidSession = ''Invalid session''"
| "detail SessionExpired = ''Session expired''"
| "detail UserNotFound = ''User not found''"
| "detail EmailTaken = ''Email already registered''"
| "detail InvalidCredentials = ''Invalid email or password''"
| "detail OAuthOnlyAccount = ''Please use Google sign-in for this account''"
| "detail SessionIdRequired = ''Session ID required''"
| "detail InvalidSessionId = ''Invalid session ID''"
| "detail AlreadyPaired = ''You already have a partner''"
| "detail FriendCodeNotFound = ''Friend code not found''"
| "detail SelfPairing = ''Cannot connect with yourself''"
| "detail TargetAlreadyPaired = ''This user already has a partner''"
| "detail NoPartner = ''You need a partner to create bucket list items''"
| "detail ItemNotFound = ''Item not found''"
| "detail NotFound = ''Item not found or already completed''"
| "detail ServerError = ''Internal Server Error''"

text \<open>\<open>timedelta(days=7)\<close> in seconds.\<close>

definition seven_days :: time where
  "seven_days = 7 * 86400"

subsection \<open>Authentication helpers\<close>

text \<open>
  \<open>get_current_user\<close>: the dependency of every authenticated endpoint. The argument is
  the \<open>Authorization\<close> header, \<open>None\<close> when the request has none.
\<close>

definition get_current_user :: "string option \<Rightarrow> time \<Rightarrow> store \<Rightarrow> error + user" where
  "get_current_user authorization now db =
     (case authorization of
        None \<Rightarrow> Inl NotAuthenticated
      | Some header \<Rightarrow>
          if header = [] then Inl NotAuthenticated
          else
            (let token = str_replace ''Bearer '' [] header in
             (case find_one (\<lambda>s. session_token s = token) (user_sessions db) of
                None \<Rightarrow> Inl InvalidSession
              | Some session \<Rightarrow>
                  if expires_at session < now then Inl SessionExpired
                  else
                    (case find_one (\<lambda>u. user_id u = sess_user_id session) (users db) of
                       None \<Rightarrow> Inl UserNotFound
                     | Some user_doc \<Rightarrow> Inr (User user_doc)))))"

text \<open>
  \<open>Depends(get_current_user)\<close>: the handler runs on the authenticated user; when the
  dependency raises, the handler does not run and the store is as it was.
\<close>

definition depends :: "string option \<Rightarrow> time \<Rightarrow> store \<Rightarrow> (user \<Rightarrow> (error + 'a) \<times> store)
    \<Rightarrow> (error + 'a) \<times> store" where
  "depends authorization now db handler =
     (case get_current_user authorization now db of
        Inl e \<Rightarrow> (Inl e, db)
      | Inr current_user \<Rightarrow> handler current_user)"

text \<open>
  The loop that draws friend codes until one is free. The list holds the outputs of
  \<open>generate_friend_code()\<close> in the order drawn; \<open>None\<close> means every draw given was
  taken, so the loop is still running.
\<close>

fun unique_friend_code :: "string list \<Rightarrow> user_doc list \<Rightarrow> string option" where
  "unique_friend_code [] us = None"
| "unique_friend_code (code # draws) us =
     (case find_one (\<lambda>u. friend_code u = code) us of
        Some u \<Rightarrow> unique_friend_code draws us
      | None \<Rightarrow> Some code)"

subsection \<open>Email and password endpoints\<close>

text \<open>
  \<open>register\<close>. \<open>hashed_password\<close> is \<open>pwd_context.hash(request.password)\<close>,
  \<open>uuid_user\<close> and \<open>uuid_session\<close> are the two \<open>uuid.uuid4().hex\<close> values drawn.
  The result is \<open>None\<close> while the friend-code loop has not ended; nothing has been
  written at that point. The response is the session token and the user.
\<close>

definition register :: "string \<Rightarrow> string \<Rightarrow> string \<Rightarrow> string \<Rightarrow> string \<Rightarrow> string list
    \<Rightarrow> string \<Rightarrow> time \<Rightarrow> store \<Rightarrow> ((error + string \<times> user) \<times> store) option" where
  "register req_email req_password req_name hashed_password uuid_user draws uuid_session now db =
     (case find_one (\<lambda>u. email u = lower req_email) (users db) of
        Some existing_user \<Rightarrow> Some (Inl EmailTaken, db)
      | None \<Rightarrow>
          (let uid = ''user_'' @ take 12 uuid_user in
           (case unique_friend_code draws (users db) of
              None \<Rightarrow> None
            | Some code \<Rightarrow>
                (let user_doc = \<lparr>user_id = uid, email = lower req_email, name = req_name,
                       picture = None, friend_code = code, partner_id = None,
                       created_at = now, password_hash = Some hashed_password\<rparr>;
                     db1 = db\<lparr>users := insert_one user_doc (users db)\<rparr>;
                     token = ''session_'' @ uuid_session;
                     db2 = db1\<lparr>user_sessions := insert_one
                       \<lparr>sess_user_id = uid, session_token = token,
                        expires_at = now + seven_days, sess_created_at = now\<rparr>
                       (user_sessions db1)\<rparr>
                 in Some (Inr (token, User user_doc), db2)))))"

text \<open>\<open>login\<close>. \<open>verify\<close> is \<open>pwd_context.verify\<close>.\<close>

definition login :: "(string \<Rightarrow> string \<Rightarrow> bool) \<Rightarrow> string \<Rightarrow> string \<Rightarrow> string \<Rightarrow> time \<Rightarrow> store
    \<Rightarrow> (error + string \<times> user) \<times> store" where
  "login verify req_email req_password uuid_session now db =
     (case find_one (\<lambda>u. email u = lower req_email) (users db) of
        None \<Rightarrow> (Inl InvalidCredentials, db)
      | Some user_doc \<Rightarrow>
          (case password_hash user_doc of
             None \<Rightarrow> (Inl OAuthOnlyAccount, db)
           | Some h \<Rightarrow>
               if \<not> verify req_password h then (Inl InvalidCredentials, db)
               else
                 (let token = ''session_'' @ uuid_session;
                      db1 = db\<lparr>user_sessions := insert_one
                        \<lparr>sess_user_id = user_id user_doc, session_token = token,
                         expires_at = now + seven_days, sess_created_at = now\<rparr>
                        (user_sessions db)\<rparr>
                  in (Inr (token, User user_doc), db1))))"

text \<open>
  \<open>create_session\<close>. \<open>session_id\<close> is the \<open>X-Session-ID\<close> header, \<open>response\<close> the
  JSON body of the external service, \<open>None\<close> when its status is not 200.
\<close>

definition create_session :: "string option \<Rightarrow> session_data option \<Rightarrow> string \<Rightarrow> string list
    \<Rightarrow> time \<Rightarrow> store \<Rightarrow> ((error + session_data) \<times> store) option" where
  "create_session session_id response uuid_user draws now db =
     (if \<not> truthy session_id then Some (Inl SessionIdRequired, db)
      else
        (case response of
           None \<Rightarrow> Some (Inl InvalidSessionId, db)
         | Some user_data \<Rightarrow>
             (let token = sd_session_token user_data;
                  store_session = (\<lambda>uid d. d\<lparr>user_sessions := insert_one
                       \<lparr>sess_user_id = uid, session_token = token,
                        expires_at = now + seven_days, sess_created_at = now\<rparr>
                       (user_sessions d)\<rparr>)
              in
              (case find_one (\<lambda>u. email u = sd_email user_data) (users db) of
                 Some existing_user \<Rightarrow>
                   Some (Inr user_data, store_session (user_id existing_user) db)
               | None \<Rightarrow>
                   (let uid = ''user_'' @ take 12 uuid_user in
                    (case unique_friend_code draws (users db) of
                       None \<Rightarrow> None
                     | Some code \<Rightarrow>
                         (let db1 = db\<lparr>users := insert_one
                                \<lparr>user_id = uid, email = sd_email user_data,
                                 name = sd_name user_data, picture = sd_picture user_data,
                                 friend_code = code, partner_id = None, created_at = now,
                                 password_hash = None\<rparr> (users db)\<rparr>
                          in Some (Inr user_data, store_session uid db1))))))))"

definition get_me :: "user \<Rightarrow> store \<Rightarrow> (error + user) \<times> store" where
  "get_me current_user db = (Inr current_user, db)"

text \<open>\<open>logout\<close>, the body of the handler; the response is the message.\<close>

definition logout :: "user \<Rightarrow> string option \<Rightarrow> store \<Rightarrow> (error + string) \<times> store" where
  "logout current_user authorization db =
     (case authorization of
        None \<Rightarrow> (Inr ''Logged out successfully'', db)
      | Some header \<Rightarrow>
          if header = [] then (Inr ''Logged out successfully'', db)
          else
            (let token = str_replace ''Bearer '' [] header in
             (Inr ''Logged out successfully'',
              db\<lparr>user_sessions := delete_one (\<lambda>s. session_token s = token) (user_sessions db)\<rparr>)))"

subsection \<open>Friend connection\<close>

text \<open>\<open>connect_friend\<close>; the response carries the friend's document as it was found.\<close>

definition connect_friend :: "string \<Rightarrow> user \<Rightarrow> store \<Rightarrow> (error + user_doc) \<times> store" where
  "connect_friend req_friend_code current_user db =
     (if truthy (partner_id current_user) then (Inl AlreadyPaired, db)
      else
        (case find_one (\<lambda>u. friend_code u = req_friend_code) (users db) of
           None \<Rightarrow> (Inl FriendCodeNotFound, db)
         | Some friend \<Rightarrow>
             if user_id friend = user_id current_user then (Inl SelfPairing, db)
             else if truthy (partner_id friend) then (Inl TargetAlreadyPaired, db)
             else
               (let db1 = db\<lparr>users := update_one (\<lambda>u. user_id u = user_id current_user)
                            (\<lambda>u. u\<lparr>partner_id := Some (user_id friend)\<rparr>) (users db)\<rparr>;
                    db2 = db1\<lparr>users := update_one (\<lambda>u. user_id u = user_id friend)
                            (\<lambda>u. u\<lparr>partner_id := Some (user_id current_user)\<rparr>) (users db1)\<rparr>
                in (Inr friend, db2))))"

subsection \<open>Bucket list\<close>

definition get_bucket_list :: "user \<Rightarrow> store \<Rightarrow> (error + bucket_item list) \<times> store" where
  "get_bucket_list current_user db =
     (Inr (take 1000 (filter (\<lambda>i. user_id current_user \<in> set (shared_with i) \<and> \<not> completed i)
             (bucket_items db))), db)"

text \<open>\<open>create_bucket_item\<close>; \<open>uuid_item\<close> is the \<open>uuid.uuid4().hex\<close> drawn.\<close>

definition create_bucket_item :: "string \<Rightarrow> string \<Rightarrow> user \<Rightarrow> string \<Rightarrow> time \<Rightarrow> store
    \<Rightarrow> (error + bucket_item) \<times> store" where
  "create_bucket_item req_title req_category current_user uuid_item now db =
     (case find_one (\<lambda>u. user_id u = user_id current_user) (users db) of
        None \<Rightarrow> (Inl ServerError, db)
      | Some user_doc \<Rightarrow>
          (case partner_id user_doc of
             None \<Rightarrow> (Inl NoPartner, db)
           | Some partner \<Rightarrow>
               if partner = [] then (Inl NoPartner, db)
               else
                 (let bucket_item = \<lparr>item_id = ''item_'' @ take 12 uuid_item,
                        title = req_title, category = req_category,
                        created_by = user_id current_user, item_created_at = now,
                        completed = False,
                        shared_with = [user_id current_user, partner]\<rparr>
                  in (Inr bucket_item,
                      db\<lparr>bucket_items := insert_one bucket_item (bucket_items db)\<rparr>))))"

definition delete_bucket_item :: "string \<Rightarrow> user \<Rightarrow> store \<Rightarrow> (error + string) \<times> store" where
  "delete_bucket_item req_item_id current_user db =
     (let q = (\<lambda>i. item_id i = req_item_id \<and> user_id current_user \<in> set (shared_with i));
          db1 = db\<lparr>bucket_items := delete_one q (bucket_items db)\<rparr>
      in if deleted_count q (bucket_items db) = 0 then (Inl ItemNotFound, db1)
         else (Inr ''Item deleted successfully'', db1))"

subsection \<open>Completed items\<close>

text \<open>\<open>complete_bucket_item\<close>; \<open>uuid_completed\<close> is the \<open>uuid.uuid4().hex\<close> drawn.\<close>

definition complete_bucket_item :: "string \<Rightarrow> string \<Rightarrow> string option \<Rightarrow> user \<Rightarrow> string \<Rightarrow> time
    \<Rightarrow> store \<Rightarrow> (error + completed_item) \<times> store" where
  "complete_bucket_item req_item_id req_photo_base64 req_notes current_user uuid_completed now db =
     (case find_one (\<lambda>i. item_id i = req_item_id \<and> user_id current_user \<in> set (shared_with i)
                          \<and> completed i = False) (bucket_items db) of
        None \<Rightarrow> (Inl NotFound, db)
      | Some item \<Rightarrow>
          (let db1 = db\<lparr>bucket_items := update_one (\<lambda>i. item_id i = req_item_id)
                       (\<lambda>i. i\<lparr>completed := True\<rparr>) (bucket_items db)\<rparr>;
               completed_item = \<lparr>completed_id = ''completed_'' @ take 12 uuid_completed,
                  c_item_id = req_item_id, c_title = title item, c_category = category item,
                  photo_base64 = req_photo_base64, c_notes = req_notes,
                  completed_at = now, completed_by = user_id current_user\<rparr>
           in (Inr completed_item,
               db1\<lparr>completed_items := insert_one completed_item (completed_items db1)\<rparr>)))"

text \<open>
  \<open>.sort("completed_at", -1)\<close>: descending by \<open>completed_at\<close>. The order the server
  gives to records with equal keys is not fixed; the model keeps them in collection order.
\<close>

definition sort_desc :: "completed_item list \<Rightarrow> completed_item list" where
  "sort_desc cs = sort_key (\<lambda>c. - completed_at c) cs"

definition get_completed_items :: "user \<Rightarrow> store \<Rightarrow> (error + completed_item list) \<times> store" where
  "get_completed_items current_user db =
     (case find_one (\<lambda>u. user_id u = user_id current_user) (users db) of
        None \<Rightarrow> (Inl ServerError, db)
      | Some user_doc \<Rightarrow>
          (case partner_id user_doc of
             None \<Rightarrow> (Inr [], db)
           | Some partner \<Rightarrow>
               if partner = [] then (Inr [], db)
               else
                 (Inr (take 1000 (sort_desc
                    (filter (\<lambda>c. completed_by c \<in> set [user_id current_user, partner])
                       (completed_items db)))), db)))"

subsection \<open>The endpoints with their authentication dependency\<close>

definition api_get_me :: "string option \<Rightarrow> time \<Rightarrow> store \<Rightarrow> (error + user) \<times> store" where
  "api_get_me authorization now db =
     depends authorization now db (\<lambda>current_user. get_me current_user db)"

definition api_logout :: "string option \<Rightarrow> time \<Rightarrow> store \<Rightarrow> (error + string) \<times> store" where
  "api_logout authorization now db =
     depends authorization now db (\<lambda>current_user. logout current_user authorization db)"

definition api_connect_friend :: "string option \<Rightarrow> string \<Rightarrow> time \<Rightarrow> store
    \<Rightarrow> (error + user_doc) \<times> store" where
  "api_connect_friend authorization req_friend_code now db =
     depends authorization now db (\<lambda>current_user. connect_friend req_friend_code current_user db)"

definition api_get_bucket_list :: "string option \<Rightarrow> time \<Rightarrow> store
    \<Rightarrow> (error + bucket_item list) \<times> store" where
  "api_get_bucket_list authorization now db =
     depends authorization now db (\<lambda>current_user. get_bucket_list current_user db)"

definition api_create_bucket_item :: "string option \<Rightarrow> string \<Rightarrow> string \<Rightarrow> string \<Rightarrow> time \<Rightarrow> store
    \<Rightarrow> (error + bucket_item) \<times> store" where
  "api_create_bucket_item authorization req_title req_category uuid_item now db =
     depends authorization now db
       (\<lambda>current_user. create_bucket_item req_title req_category current_user uuid_item now db)"

definition api_delete_bucket_item :: "string option \<Rightarrow> string \<Rightarrow> time \<Rightarrow> store
    \<Rightarrow> (error + string) \<times> store" where
  "api_delete_bucket_item authorization req_item_id now db =
     depends authorization now db (\<lambda>current_user. delete_bucket_item req_item_id current_user db)"

definition api_complete_bucket_item :: "string option \<Rightarrow> string \<Rightarrow> string \<Rightarrow> string option
    \<Rightarrow> string \<Rightarrow> time \<Rightarrow> store \<Rightarrow> (error + completed_item) \<times> store" where
  "api_complete_bucket_item authorization req_item_id req_photo_base64 req_notes uuid_completed now db =
     depends authorization now db
       (\<lambda>current_user. complete_bucket_item req_item_id req_photo_base64 req_notes current_user
          uuid_completed now db)"

definition api_get_completed_items :: "string option \<Rightarrow> time \<Rightarrow> store
    \<Rightarrow> (error + completed_item list) \<times> store" where
  "api_get_completed_items authorization now db =
     depends authorization now db (\<lambda>current_user. get_completed_items current_user db)"

subsection \<open>Sequences of requests\<close>

text \<open>
  A request to one of the eleven endpoints, with its header and body and with the values
  the handler draws while it runs. \<open>exec\<close> gives the store after the request; a request
  whose friend-code loop has not ended has written nothing.
\<close>

datatype request =
    Register string string string string string "string list" string
  | Login string string string
  | CreateSession "string option" "session_data option" string "string list"
  | GetMe "string option"
  | Logout "string option"
  | ConnectFriend "string option" string
  | GetBucketList "string option"
  | CreateBucketItem "string option" string string string
  | DeleteBucketItem "string option" string
  | CompleteBucketItem "string option" string string "string option" string
  | GetCompletedItems "string option"

fun exec :: "(string \<Rightarrow> string \<Rightarrow> bool) \<Rightarrow> time \<Rightarrow> request \<Rightarrow> store \<Rightarrow> store" where
  "exec verify now (Register e p n h u ds u2) db =
     (case register e p n h u ds u2 now db of None \<Rightarrow> db | Some r \<Rightarrow> snd r)"
| "exec verify now (Login e p u) db = snd (login verify e p u now db)"
| "exec verify now (CreateSession sid resp u ds) db =
     (case create_session sid resp u ds now db of None \<Rightarrow> db | Some r \<Rightarrow> snd r)"
| "exec verify now (GetMe a) db = snd (api_get_me a now db)"
| "exec verify now (Logout a) db = snd (api_logout a now db)"
| "exec verify now (ConnectFriend a code) db = snd (api_connect_friend a code now db)"
| "exec verify now (GetBucketList a) db = snd (api_get_bucket_list a now db)"
| "exec verify now (CreateBucketItem a t c u) db = snd (api_create_bucket_item a t c u now db)"
| "exec verify now (DeleteBucketItem a i) db = snd (api_delete_bucket_item a i now db)"
| "exec verify now (CompleteBucketItem a i ph nt u) db =
     snd (api_complete_bucket_item a i ph nt u now db)"
| "exec verify now (GetCompletedItems a) db = snd (api_get_completed_items a now db)"

fun run :: "(string \<Rightarrow> string \<Rightarrow> bool) \<Rightarrow> (time \<times> request) list \<Rightarrow> store \<Rightarrow> store" where
  "run verify [] db = db"
| "run verify ((now, r) # rs) db = run verify rs (exec verify now r db)"

text \<open>
  The identifiers a request makes from its \<open>uuid4\<close> draws. The handlers do not check
  them against the store: that a draw differs from every identifier made before is a
  property of \<open>uuid4\<close>, stated as \<open>uuids_fresh\<close> where a theorem relies on it.
\<close>

fun new_ids :: "request \<Rightarrow> string list" where
  "new_ids (Register e p n h u ds u2) = [''user_'' @ take 12 u]"
| "new_ids (CreateSession sid resp u ds) = [''user_'' @ take 12 u]"
| "new_ids (CreateBucketItem a t c u) = [''item_'' @ take 12 u]"
| "new_ids r = []"

definition store_ids :: "store \<Rightarrow> string list" where
  "store_ids db = map user_id (users db) @ map item_id (bucket_items db)
                  @ map c_item_id (completed_items db)"

definition uuids_fresh :: "(time \<times> request) list \<Rightarrow> store \<Rightarrow> bool" where
  "uuids_fresh rs db =
     (let drawn = concat (map (\<lambda>(now, r). new_ids r) rs)
      in distinct drawn \<and> (\<forall>i \<in> set drawn. i \<notin> set (store_ids db)))"

subsection \<open>Invariants of the store\<close>

text \<open>
  User documents: identifiers are distinct and not empty, friend codes are distinct, and
  a partner is another user whose partner is this one.
\<close>

definition pairing_inv :: "store \<Rightarrow> bool" where
  "pairing_inv db =
     (distinct (map user_id (users db)) \<and> distinct (map friend_code (users db))
      \<and> (\<forall>u \<in> set (users db). user_id u \<noteq> []
            \<and> (case partner_id u of
                 None \<Rightarrow> True
               | Some p \<Rightarrow> p \<noteq> user_id u
                   \<and> (\<exists>v \<in> set (users db). user_id v = p \<and> partner_id v = Some (user_id u)))))"

text \<open>
  Bucket items: identifiers are distinct, no two completion records are of one item, and
  an item that has a completion record is flagged completed.
\<close>

definition items_inv :: "store \<Rightarrow> bool" where
  "items_inv db =
     (distinct (map item_id (bucket_items db)) \<and> distinct (map c_item_id (completed_items db))
      \<and> (\<forall>c \<in> set (completed_items db). \<forall>i \<in> set (bucket_items db).
            item_id i = c_item_id c \<longrightarrow> completed i))"

subsection \<open>Example stores\<close>

text \<open>Four users: Ann and Bob have no partner, Cat and Dan are partners.\<close>

definition ann :: user_doc where
  "ann = \<lparr>user_id = ''user_a'', email = ''ann@x.com'', name = ''Ann'', picture = None,
          friend_code = ''AAAAA'', partner_id = None, created_at = 0,
          password_hash = Some ''h1''\<rparr>"

definition bob :: user_doc where
  "bob = \<lparr>user_id = ''user_b'', email = ''bob@x.com'', name = ''Bob'', picture = None,
          friend_code = ''BBBBB'', partner_id = None, created_at = 1,
          password_hash = Some ''h2''\<rparr>"

definition cat :: user_doc where
  "cat = \<lparr>user_id = ''user_c'', email = ''cat@x.com'', name = ''Cat'', picture = None,
          friend_code = ''CCCCC'', partner_id = Some ''user_d'', created_at = 2,
          password_hash = None\<rparr>"

definition dan :: user_doc where
  "dan = \<lparr>user_id = ''user_d'', email = ''dan@x.com'', name = ''Dan'', picture = None,
          friend_code = ''DDDDD'', partner_id = Some ''user_c'', created_at = 3,
          password_hash = None\<rparr>"

definition db_users :: store where
  "db_users = \<lparr>users = [ann, bob, cat, dan],
     user_sessions =
       [\<lparr>sess_user_id = ''user_a'', session_token = ''session_a'', expires_at = 1000,
         sess_created_at = 0\<rparr>,
        \<lparr>sess_user_id = ''user_c'', session_token = ''session_c'', expires_at = 1000,
         sess_created_at = 0\<rparr>],
     bucket_items = [], completed_items = []\<rparr>"

text \<open>Cat and Dan's item, completed by Cat.\<close>

definition paris :: bucket_item where
  "paris = \<lparr>item_id = ''item_1'', title = ''Visit Paris'', category = ''Travel'',
            created_by = ''user_c'', item_created_at = 10, completed = True,
            shared_with = [''user_c'', ''user_d'']\<rparr>"

definition paris_done :: completed_item where
  "paris_done = \<lparr>completed_id = ''completed_1'', c_item_id = ''item_1'',
     c_title = ''Visit Paris'', c_category = ''Travel'', photo_base64 = ''P1'',
     c_notes = None, completed_at = 20, completed_by = ''user_c''\<rparr>"

definition db_items :: store where
  "db_items = db_users\<lparr>bucket_items := [paris], completed_items := [paris_done]\<rparr>"

text \<open>
  An answer of the identity service for the address of Ann in another case, and the store
  after \<open>create_session\<close> has handled it in \<open>db_users\<close> at time 7.
\<close>

definition ext_ann :: session_data where
  "ext_ann = \<lparr>sd_id = ''g1'', sd_email = ''Ann@X.com'', sd_name = ''Ann'',
               sd_picture = None, sd_session_token = ''ext_1''\<rparr>"

definition db_ext :: store where
  "db_ext = db_users\<lparr>users := users db_users @
               [\<lparr>user_id = ''user_0123456789ab'', email = ''Ann@X.com'', name = ''Ann'',
                 picture = None, friend_code = ''EEEEE'', partner_id = None, created_at = 7,
                 password_hash = None\<rparr>],
             user_sessions := user_sessions db_users @
               [\<lparr>sess_user_id = ''user_0123456789ab'', session_token = ''ext_1'',
                 expires_at = 7 + seven_days, sess_created_at = 7\<rparr>]\<rparr>"




text \<open>The store \<open>db_users\<close> after Ann has logged out.\<close>

definition db_logged_out :: store where
  "db_logged_out = db_users\<lparr>user_sessions :=
     [\<lparr>sess_user_id = ''user_c'', session_token = ''session_c'', expires_at = 1000,
       sess_created_at = 0\<rparr>]\<rparr>"

text \<open>
  Cat and Dan have 1001 items, numbered from 0 to 1000, and Cat has completed item
  \<open>n\<close> at time \<open>n\<close>. The identifiers end in the four decimal digits of \<open>n\<close>.
\<close>

definition digits4 :: "nat \<Rightarrow> string" where
  "digits4 n = map (\<lambda>k. char_of (48 + k))
     [n div 1000 mod 10, n div 100 mod 10, n div 10 mod 10, n mod 10]"

definition item_n :: "nat \<Rightarrow> bucket_item" where
  "item_n n = \<lparr>item_id = ''item_00000000'' @ digits4 n, title = ''Wish'',
     category = ''Travel'', created_by = ''user_c'', item_created_at = 0, completed = True,
     shared_with = [''user_c'', ''user_d'']\<rparr>"

definition done_n :: "nat \<Rightarrow> completed_item" where
  "done_n n = \<lparr>completed_id = ''completed_00000000'' @ digits4 n,
     c_item_id = ''item_00000000'' @ digits4 n, c_title = ''Wish'', c_category = ''Travel'',
     photo_base64 = ''P'', c_notes = None, completed_at = int n, completed_by = ''user_c''\<rparr>"

definition db_many :: store where
  "db_many = db_users\<lparr>bucket_items := map item_n [0..<1001],
                        completed_items := map done_n [0..<1001]\<rparr>"

text \<open>
  Three requests: Eve registers (her first friend-code draw is taken), Ann connects with
  Eve's code, Cat creates an item.
\<close>

definition example_requests :: "(time \<times> request) list" where
  "example_requests =
     [(5, Register ''eve@x.com'' ''pw'' ''Eve'' ''h5'' ''0123456789abcdef''
            [''AAAAA'', ''EEEEE''] ''f00d''),
      (6, ConnectFriend (Some ''Bearer session_a'') ''EEEEE''),
      (7, CreateBucketItem (Some ''Bearer session_c'') ''Visit Paris'' ''Travel''
            ''aaaabbbbccccdddd'')]"

text \<open>
  Cat and Dan's list with a second item, not completed, and the store after Cat has
  completed it at time 30.
\<close>

definition sushi :: bucket_item where
  "sushi = \<lparr>item_id = ''item_2'', title = ''Try Sushi'', category = ''Food'',
            created_by = ''user_d'', item_created_at = 11, completed = False,
            shared_with = [''user_d'', ''user_c'']\<rparr>"

definition sushi_done :: completed_item where
  "sushi_done = \<lparr>completed_id = ''completed_cccc0000dddd'', c_item_id = ''item_2'',
     c_title = ''Try Sushi'', c_category = ''Food'', photo_base64 = ''P2'',
     c_notes = None, completed_at = 30, completed_by = ''user_c''\<rparr>"

definition db_list :: store where
  "db_list = db_users\<lparr>bucket_items := [paris, sushi], completed_items := [paris_done]\<rparr>"

definition db_done :: store where
  "db_done = db_users\<lparr>bucket_items := [paris, sushi\<lparr>completed := True\<rparr>],
                       completed_items := [paris_done, sushi_done]\<rparr>"

text \<open>The item Cat creates in \<open>db_users\<close> at time 7, and two later requests.\<close>

definition paris_new :: bucket_item where
  "paris_new = \<lparr>item_id = ''item_aaaabbbbcccc'', title = ''Visit Paris'',
     category = ''Travel'', created_by = ''user_c'', item_created_at = 7, completed = False,
     shared_with = [''user_c'', ''user_d'']\<rparr>"

definition db_created :: store where
  "db_created = db_users\<lparr>bucket_items := [paris_new]\<rparr>"

definition later_requests :: "(time \<times> request) list" where
  "later_requests =
     [(8, CompleteBucketItem (Some ''Bearer session_c'') ''item_aaaabbbbcccc'' ''P1'' None
            ''9999888877776666''),
      (9, CreateBucketItem (Some ''Bearer session_c'') ''Try Sushi'' ''Food''
            ''1111222233334444'')]"

section \<open>Properties\<close>

subsection \<open>Collections\<close>

lemma find_one_None: "find_one q xs = None \<longleftrightarrow> (\<forall>x \<in> set xs. \<not> q x)"
  by (induction xs) auto

lemma find_one_Some: "find_one q xs = Some x \<Longrightarrow> x \<in> set xs \<and> q x"
  by (induction xs) (auto split: if_splits)

lemmas example_defs = ann_def bob_def cat_def dan_def db_users_def paris_def paris_done_def
  db_items_def User_def user.truncate_def

lemma length_delete_one:
  "find_one q xs = Some x \<Longrightarrow> Suc (length (delete_one q xs)) = length xs"
  by (induction xs) (auto split: if_splits)

lemma delete_one_none: "\<forall>x \<in> set xs. \<not> q x \<Longrightarrow> delete_one q xs = xs"
  by (induction xs) auto


lemma find_one_exists: "x \<in> set xs \<Longrightarrow> q x \<Longrightarrow> \<exists>y. find_one q xs = Some y \<and> q y"
  by (induction xs) auto


lemma lower_Ann: "lower ''Ann@X.com'' = ''ann@x.com''"
  by code_simp

lemma get_current_user_cases:
  "get_current_user authorization now db = r \<Longrightarrow>
     (case r of
        Inl e \<Rightarrow> e \<in> {NotAuthenticated, InvalidSession, SessionExpired, UserNotFound}
      | Inr u \<Rightarrow> \<exists>header s d. authorization = Some header \<and> header \<noteq> []
           \<and> find_one (\<lambda>s. session_token s = str_replace ''Bearer '' [] header)
                (user_sessions db) = Some s
           \<and> \<not> expires_at s < now
           \<and> find_one (\<lambda>u. user_id u = sess_user_id s) (users db) = Some d \<and> u = User d)"
  by (auto simp: get_current_user_def Let_def split: option.splits if_splits)

lemma user_id_User: "user_id (User d) = user_id d"
  by (simp add: User_def user.truncate_def)

lemma partner_id_User: "partner_id (User d) = partner_id d"
  by (simp add: User_def user.truncate_def)


lemma mset_sort_desc: "mset (sort_desc cs) = mset cs"
  by (simp add: sort_desc_def)

lemma sorted_sort_desc:
  "sorted_wrt (\<lambda>a b. completed_at b \<le> completed_at a) (sort_desc cs)"
proof -
  have "sorted (map (\<lambda>c. - completed_at c) (sort_desc cs))"
    by (simp add: sort_desc_def)
  then show ?thesis by (simp add: sorted_map)
qed

lemma take_sorted_newest:
  assumes "sorted_wrt (\<lambda>a b. completed_at b \<le> completed_at a) xs"
  shows "\<forall>y \<in> set (take n xs). \<forall>x \<in> set (drop n xs). completed_at x \<le> completed_at y"
proof -
  from assms have "sorted_wrt (\<lambda>a b. completed_at b \<le> completed_at a) (take n xs @ drop n xs)"
    by simp
  then show ?thesis unfolding sorted_wrt_append by blast
qed

subsection \<open>The effect of a request on the collections\<close>

lemma get_current_user_Inr:
  assumes "get_current_user authorization now db = Inr u"
  obtains d where "d \<in> set (users db)" "u = User d"
    "find_one (\<lambda>x. user_id x = user_id d) (users db) = Some d"
proof -
  from get_current_user_cases [OF assms]
  have "\<exists>(s :: session) d.
      find_one (\<lambda>x. user_id x = sess_user_id s) (users db) = Some d \<and> u = User d"
    by auto
  then obtain s :: session and d where
    d: "find_one (\<lambda>x. user_id x = sess_user_id s) (users db) = Some d" "u = User d"
    by blast
  from d(1) have "d \<in> set (users db)" "user_id d = sess_user_id s"
    by (auto dest: find_one_Some)
  with d that show thesis by simp
qed

lemma depends_cases:
  obtains (refused) e where "depends authorization now db handler = (Inl e, db)"
  | (handled) d where "d \<in> set (users db)"
      "find_one (\<lambda>x. user_id x = user_id d) (users db) = Some d"
      "depends authorization now db handler = handler (User d)"
proof (cases "get_current_user authorization now db")
  case (Inl e)
  then have "depends authorization now db handler = (Inl e, db)"
    by (simp add: depends_def)
  then show thesis by (rule refused)
next
  case (Inr u)
  then obtain d where "d \<in> set (users db)" "u = User d"
    "find_one (\<lambda>x. user_id x = user_id d) (users db) = Some d"
    by (rule get_current_user_Inr)
  with Inr show thesis by (intro handled [of d]) (simp_all add: depends_def)
qed

lemma unique_friend_code_fresh:
  "unique_friend_code draws us = Some code \<Longrightarrow> \<forall>u \<in> set us. friend_code u \<noteq> code"
  by (induction draws) (auto simp: find_one_None split: option.splits)

text \<open>What a request does to the users.\<close>

lemma users_exec:
  "users (exec verify now r db) = users db
   \<or> (\<exists>new. users (exec verify now r db) = users db @ [new] \<and> new_ids r = [user_id new]
         \<and> user_id new \<noteq> [] \<and> partner_id new = None
         \<and> (\<forall>u \<in> set (users db). friend_code u \<noteq> friend_code new))
   \<or> (\<exists>d code. d \<in> set (users db)
         \<and> exec verify now r db = snd (connect_friend code (User d) db))"
proof (cases r)
  case (Register e p n h u ds u2)
  then show ?thesis
    by (auto simp: register_def Let_def insert_one_def split: option.splits
        dest: unique_friend_code_fresh)
next
  case (Login e p u)
  then show ?thesis
    by (auto simp: login_def Let_def split: option.splits)
next
  case (CreateSession sid resp u ds)
  then show ?thesis
    by (auto simp: create_session_def Let_def insert_one_def split: option.splits
        dest: unique_friend_code_fresh)
next
  case (GetMe a)
  then show ?thesis
    by (cases rule: depends_cases [of a now db "\<lambda>cu. get_me cu db"])
      (simp_all add: api_get_me_def get_me_def)
next
  case (Logout a)
  then show ?thesis
    by (cases rule: depends_cases [of a now db "\<lambda>cu. logout cu a db"])
      (auto simp: api_logout_def logout_def Let_def split: option.splits)
next
  case (ConnectFriend a code)
  then show ?thesis
    by (cases rule: depends_cases [of a now db "\<lambda>cu. connect_friend code cu db"])
      (auto simp: api_connect_friend_def)
next
  case (GetBucketList a)
  then show ?thesis
    by (cases rule: depends_cases [of a now db "\<lambda>cu. get_bucket_list cu db"])
      (simp_all add: api_get_bucket_list_def get_bucket_list_def)
next
  case (CreateBucketItem a t c u)
  then show ?thesis
    by (cases rule: depends_cases [of a now db "\<lambda>cu. create_bucket_item t c cu u now db"])
      (auto simp: api_create_bucket_item_def create_bucket_item_def Let_def
        split: option.splits)
next
  case (DeleteBucketItem a i)
  then show ?thesis
    by (cases rule: depends_cases [of a now db "\<lambda>cu. delete_bucket_item i cu db"])
      (auto simp: api_delete_bucket_item_def delete_bucket_item_def Let_def)
next
  case (CompleteBucketItem a i ph nt u)
  then show ?thesis
    by (cases rule: depends_cases [of a now db
          "\<lambda>cu. complete_bucket_item i ph nt cu u now db"])
      (auto simp: api_complete_bucket_item_def complete_bucket_item_def Let_def
        split: option.splits)
next
  case (GetCompletedItems a)
  then show ?thesis
    by (cases rule: depends_cases [of a now db "\<lambda>cu. get_completed_items cu db"])
      (auto simp: api_get_completed_items_def get_completed_items_def split: option.splits)
qed

lemma set_update_one: "set (update_one q f xs) \<subseteq> set xs \<union> f ` set xs"
  by (induction xs) auto

lemma map_update_one: "(\<And>x. k (f x) = k x) \<Longrightarrow> map k (update_one q f xs) = map k xs"
  by (induction xs) auto

lemma update_one_distinct:
  "distinct (map k xs) \<Longrightarrow> (\<And>x. k (f x) = k x) \<Longrightarrow>
   update_one (\<lambda>y. k y = a) f xs = map (\<lambda>y. if k y = a then f y else y) xs"
proof (induction xs)
  case Nil
  then show ?case by simp
next
  case (Cons x xs)
  have "k x \<notin> k ` set xs \<Longrightarrow> map (\<lambda>y. if k y = k x then f y else y) xs = xs"
    by (induction xs) auto
  with Cons show ?case by auto
qed

lemma set_delete_one: "set (delete_one q xs) \<subseteq> set xs"
  by (induction xs) auto

lemma distinct_delete_one: "distinct (map k xs) \<Longrightarrow> distinct (map k (delete_one q xs))"
proof (induction xs)
  case Nil
  then show ?case by simp
next
  case (Cons x xs)
  have "k x \<notin> k ` set xs \<Longrightarrow> k x \<notin> k ` set (delete_one q xs)"
    using set_delete_one [of q xs] by blast
  with Cons show ?case by auto
qed

text \<open>What a request does to the bucket items and the completed items.\<close>

lemma items_exec:
  "(bucket_items (exec verify now r db) = bucket_items db
      \<and> completed_items (exec verify now r db) = completed_items db)
   \<or> (\<exists>new. bucket_items (exec verify now r db) = bucket_items db @ [new]
         \<and> completed_items (exec verify now r db) = completed_items db
         \<and> new_ids r = [item_id new] \<and> \<not> completed new)
   \<or> (\<exists>q. bucket_items (exec verify now r db) = delete_one q (bucket_items db)
         \<and> completed_items (exec verify now r db) = completed_items db)
   \<or> (\<exists>i c. i \<in> set (bucket_items db) \<and> \<not> completed i
         \<and> bucket_items (exec verify now r db) =
             update_one (\<lambda>j. item_id j = item_id i) (\<lambda>j. j\<lparr>completed := True\<rparr>)
               (bucket_items db)
         \<and> completed_items (exec verify now r db) = completed_items db @ [c]
         \<and> c_item_id c = item_id i)"
proof (cases r)
  case (Register e p n h u ds u2)
  then show ?thesis
    by (auto simp: register_def Let_def split: option.splits)
next
  case (Login e p u)
  then show ?thesis
    by (auto simp: login_def Let_def split: option.splits)
next
  case (CreateSession sid resp u ds)
  then show ?thesis
    by (auto simp: create_session_def Let_def split: option.splits)
next
  case (GetMe a)
  then show ?thesis
    by (cases rule: depends_cases [of a now db "\<lambda>cu. get_me cu db"])
      (simp_all add: api_get_me_def get_me_def)
next
  case (Logout a)
  then show ?thesis
    by (cases rule: depends_cases [of a now db "\<lambda>cu. logout cu a db"])
      (auto simp: api_logout_def logout_def Let_def split: option.splits)
next
  case (ConnectFriend a code)
  then show ?thesis
    by (cases rule: depends_cases [of a now db "\<lambda>cu. connect_friend code cu db"])
      (auto simp: api_connect_friend_def connect_friend_def Let_def split: option.splits)
next
  case (GetBucketList a)
  then show ?thesis
    by (cases rule: depends_cases [of a now db "\<lambda>cu. get_bucket_list cu db"])
      (simp_all add: api_get_bucket_list_def get_bucket_list_def)
next
  case (CreateBucketItem a t c u)
  then show ?thesis
    by (cases rule: depends_cases [of a now db "\<lambda>cu. create_bucket_item t c cu u now db"])
      (auto simp: api_create_bucket_item_def create_bucket_item_def Let_def insert_one_def
        split: option.splits)
next
  case (DeleteBucketItem a i)
  then show ?thesis
    by (cases rule: depends_cases [of a now db "\<lambda>cu. delete_bucket_item i cu db"])
      (auto simp: api_delete_bucket_item_def delete_bucket_item_def Let_def)
next
  case (CompleteBucketItem a i ph nt u)
  show ?thesis
  proof (cases rule: depends_cases [of a now db
          "\<lambda>cu. complete_bucket_item i ph nt cu u now db"])
    case (refused e)
    with CompleteBucketItem show ?thesis by (simp add: api_complete_bucket_item_def)
  next
    case (handled d)
    let ?q = "\<lambda>j. item_id j = i \<and> user_id (User d) \<in> set (shared_with j) \<and> completed j = False"
    show ?thesis
    proof (cases "find_one ?q (bucket_items db)")
      case None
      with handled CompleteBucketItem show ?thesis
        by (simp add: api_complete_bucket_item_def complete_bucket_item_def)
    next
      case (Some item)
      then have "item \<in> set (bucket_items db)" "item_id item = i" "\<not> completed item"
        by (auto dest: find_one_Some)
      with Some handled CompleteBucketItem show ?thesis
        by (auto simp: api_complete_bucket_item_def complete_bucket_item_def Let_def
            insert_one_def)
    qed
  qed
next
  case (GetCompletedItems a)
  then show ?thesis
    by (cases rule: depends_cases [of a now db "\<lambda>cu. get_completed_items cu db"])
      (auto simp: api_get_completed_items_def get_completed_items_def split: option.splits)
qed

lemma connect_friend_users:
  "users (snd (connect_friend code cu db)) = users db
   \<or> (\<exists>f. f \<in> set (users db) \<and> user_id f \<noteq> user_id cu
         \<and> \<not> truthy (partner_id cu) \<and> \<not> truthy (partner_id f)
         \<and> users (snd (connect_friend code cu db)) =
             update_one (\<lambda>u. user_id u = user_id f) (\<lambda>u. u\<lparr>partner_id := Some (user_id cu)\<rparr>)
               (update_one (\<lambda>u. user_id u = user_id cu)
                  (\<lambda>u. u\<lparr>partner_id := Some (user_id f)\<rparr>) (users db)))"
  by (auto simp: connect_friend_def Let_def split: option.splits dest: find_one_Some)

lemma connect_friend_user_ids:
  "map user_id (users (snd (connect_friend code cu db))) = map user_id (users db)"
  using connect_friend_users [of code cu db] by (auto simp: map_update_one)

lemma store_ids_exec:
  "set (store_ids (exec verify now r db)) \<subseteq> set (store_ids db) \<union> set (new_ids r)"
proof -
  have u: "set (map user_id (users (exec verify now r db)))
      \<subseteq> set (map user_id (users db)) \<union> set (new_ids r)"
  proof -
    consider "users (exec verify now r db) = users db"
      | new where "users (exec verify now r db) = users db @ [new]" "new_ids r = [user_id new]"
      | d code where "exec verify now r db = snd (connect_friend code (User d) db)"
      using users_exec [of verify now r db] by blast
    then show ?thesis
    proof cases
      case 1
      then show ?thesis by simp
    next
      case 2
      then show ?thesis by auto
    next
      case 3
      then show ?thesis by (simp add: connect_friend_user_ids)
    qed
  qed
  consider
      (same) "bucket_items (exec verify now r db) = bucket_items db"
        "completed_items (exec verify now r db) = completed_items db"
    | (created) new where "bucket_items (exec verify now r db) = bucket_items db @ [new]"
        "completed_items (exec verify now r db) = completed_items db"
        "new_ids r = [item_id new]"
    | (deleted) q where "bucket_items (exec verify now r db) = delete_one q (bucket_items db)"
        "completed_items (exec verify now r db) = completed_items db"
    | (completed) i c where "i \<in> set (bucket_items db)"
        "bucket_items (exec verify now r db) =
           update_one (\<lambda>j. item_id j = item_id i) (\<lambda>j. j\<lparr>completed := True\<rparr>)
             (bucket_items db)"
        "completed_items (exec verify now r db) = completed_items db @ [c]"
        "c_item_id c = item_id i"
    using items_exec [of verify now r db] by blast
  then have ic: "set (map item_id (bucket_items (exec verify now r db)))
        \<subseteq> set (map item_id (bucket_items db)) \<union> set (new_ids r)
      \<and> set (map c_item_id (completed_items (exec verify now r db)))
        \<subseteq> set (map c_item_id (completed_items db)) \<union> set (map item_id (bucket_items db))"
  proof cases
    case same
    then show ?thesis by simp
  next
    case created
    then show ?thesis by auto
  next
    case deleted
    have "set (delete_one q (bucket_items db)) \<subseteq> set (bucket_items db)"
      by (rule set_delete_one)
    with deleted show ?thesis by auto
  next
    case completed
    have "map item_id (update_one (\<lambda>j. item_id j = item_id i) (\<lambda>j. j\<lparr>completed := True\<rparr>)
        (bucket_items db)) = map item_id (bucket_items db)"
      by (rule map_update_one) simp
    with completed show ?thesis by auto
  qed
  from u ic show ?thesis unfolding store_ids_def by auto
qed

subsection \<open>The pairing invariant\<close>

lemma find_one_distinct:
  "distinct (map k xs) \<Longrightarrow> x \<in> set xs \<Longrightarrow> find_one (\<lambda>y. k y = k x) xs = Some x"
  by (induction xs) (auto simp: rev_image_eqI)

lemma pairing_inv_unset:
  assumes "pairing_inv db" and "u \<in> set (users db)" and "\<not> truthy (partner_id u)"
  shows "partner_id u = None"
proof (cases "partner_id u")
  case None
  then show ?thesis .
next
  case (Some p)
  with assms(1,2) obtain v where "v \<in> set (users db)" "user_id v = p"
    unfolding pairing_inv_def by force
  moreover from assms(1) this have "user_id v \<noteq> []"
    unfolding pairing_inv_def by blast
  ultimately have "truthy (partner_id u)" using Some by simp
  with assms(3) show ?thesis by simp
qed

lemma pairing_inv_insert:
  assumes inv: "pairing_inv db"
    and new: "users db' = users db @ [new]" "user_id new \<notin> set (map user_id (users db))"
      "\<forall>u \<in> set (users db). friend_code u \<noteq> friend_code new"
      "user_id new \<noteq> []" "partner_id new = None"
  shows "pairing_inv db'"
proof -
  have "\<exists>v \<in> set (users db'). user_id v = p \<and> partner_id v = Some (user_id u)"
    if "u \<in> set (users db)" "partner_id u = Some p" for u p
    using inv that new(1) unfolding pairing_inv_def by force
  moreover have "p \<noteq> user_id u" if "u \<in> set (users db)" "partner_id u = Some p" for u p
    using inv that unfolding pairing_inv_def by force
  moreover have "user_id u \<noteq> []" if "u \<in> set (users db)" for u
    using inv that unfolding pairing_inv_def by blast
  moreover have "distinct (map user_id (users db'))" "distinct (map friend_code (users db'))"
    using inv new unfolding pairing_inv_def by auto
  ultimately show ?thesis
    unfolding pairing_inv_def using new by (auto split: option.splits)
qed

lemma pairing_inv_link:
  assumes inv: "pairing_inv db"
    and d: "d \<in> set (users db)" "\<not> truthy (partner_id d)"
    and f: "f \<in> set (users db)" "\<not> truthy (partner_id f)"
    and ne: "user_id f \<noteq> user_id d"
    and upd: "users db' =
       update_one (\<lambda>u. user_id u = user_id f) (\<lambda>u. u\<lparr>partner_id := Some (user_id d)\<rparr>)
         (update_one (\<lambda>u. user_id u = user_id d)
            (\<lambda>u. u\<lparr>partner_id := Some (user_id f)\<rparr>) (users db))"
  shows "pairing_inv db'"
    and "\<exists>d' f'. find_one (\<lambda>u. user_id u = user_id d) (users db') = Some d'
           \<and> partner_id d' = Some (user_id f)
           \<and> find_one (\<lambda>u. user_id u = user_id f) (users db') = Some f'
           \<and> partner_id f' = Some (user_id d)"
proof -
  define g :: "user_doc \<Rightarrow> user_doc"
    where "g = (\<lambda>u. if user_id u = user_id d then u\<lparr>partner_id := Some (user_id f)\<rparr> else u)"
  define h :: "user_doc \<Rightarrow> user_doc"
    where "h = (\<lambda>u. if user_id u = user_id f then u\<lparr>partner_id := Some (user_id d)\<rparr> else u)"
  define k where "k = (\<lambda>u. h (g u))"
  have k_id: "user_id (k u) = user_id u" and k_code: "friend_code (k u) = friend_code u" for u
    by (simp_all add: k_def g_def h_def)
  have k_d: "partner_id (k u) = Some (user_id f)" if "user_id u = user_id d" for u
    using that ne by (simp add: k_def g_def h_def)
  have k_f: "partner_id (k u) = Some (user_id d)" if "user_id u = user_id f" for u
    using that ne by (simp add: k_def g_def h_def)
  have k_other: "k u = u" if "user_id u \<noteq> user_id d" "user_id u \<noteq> user_id f" for u
    using that by (simp add: k_def g_def h_def)
  have dist: "distinct (map user_id (users db))" "distinct (map friend_code (users db))"
    using inv unfolding pairing_inv_def by simp_all
  have none: "partner_id d = None" "partner_id f = None"
    using inv d f by (simp_all add: pairing_inv_unset)
  have step1: "update_one (\<lambda>u. user_id u = user_id d)
      (\<lambda>u. u\<lparr>partner_id := Some (user_id f)\<rparr>) (users db) = map g (users db)"
    unfolding g_def using dist(1) by (rule update_one_distinct) simp
  have mg: "map user_id (map g (users db)) = map user_id (users db)"
    by (simp add: g_def)
  have "distinct (map user_id (map g (users db)))"
    by (simp only: mg dist(1))
  then have step2: "update_one (\<lambda>u. user_id u = user_id f)
      (\<lambda>u. u\<lparr>partner_id := Some (user_id d)\<rparr>) (map g (users db)) = map h (map g (users db))"
    unfolding h_def by (rule update_one_distinct) simp
  have us: "users db' = map k (users db)"
    using upd step1 step2 by (simp add: k_def)
  have ids: "map user_id (users db') = map user_id (users db)"
    and codes: "map friend_code (users db') = map friend_code (users db)"
    unfolding us by (simp_all add: k_id k_code)
  have d1: "distinct (map user_id (users db'))" "distinct (map friend_code (users db'))"
    by (simp_all only: ids codes dist)
  have inj: "u = v" if "u \<in> set (users db)" "v \<in> set (users db)" "user_id u = user_id v" for u v
    using dist(1) that by (meson distinct_map inj_onD)
  have kd: "k d \<in> set (users db')" and kf: "k f \<in> set (users db')"
    using d(1) f(1) us by simp_all
  have ok: "user_id w \<noteq> []
      \<and> (case partner_id w of None \<Rightarrow> True
          | Some p \<Rightarrow> p \<noteq> user_id w
              \<and> (\<exists>v \<in> set (users db'). user_id v = p \<and> partner_id v = Some (user_id w)))"
    if w: "w \<in> set (users db')" for w
  proof -
    from w us obtain u where u: "u \<in> set (users db)" "w = k u" by auto
    have "user_id u \<noteq> []"
      using inv u(1) unfolding pairing_inv_def by blast
    then have nonempty: "user_id w \<noteq> []"
      by (simp add: u(2) k_id)
    consider "user_id u = user_id f" | "user_id u = user_id d"
      | "user_id u \<noteq> user_id f" "user_id u \<noteq> user_id d" by blast
    then show ?thesis
    proof cases
      case 1
      then have pw: "partner_id w = Some (user_id d)" and iw: "user_id w = user_id f"
        by (simp_all add: u(2) k_f k_id)
      have "\<exists>v \<in> set (users db'). user_id v = user_id d \<and> partner_id v = Some (user_id f)"
        using kd k_id [of d] k_d [of d] by blast
      with nonempty ne show ?thesis by (simp add: pw iw)
    next
      case 2
      then have pw: "partner_id w = Some (user_id f)" and iw: "user_id w = user_id d"
        by (simp_all add: u(2) k_d k_id)
      have "\<exists>v \<in> set (users db'). user_id v = user_id f \<and> partner_id v = Some (user_id d)"
        using kf k_id [of f] k_f [of f] by blast
      with nonempty ne show ?thesis by (simp add: pw iw)
    next
      case 3
      then have wu: "w = u" by (simp add: u(2) k_other)
      show ?thesis
      proof (cases "partner_id u")
        case None
        with wu nonempty show ?thesis by simp
      next
        case (Some p)
        from inv u(1) have "case partner_id u of None \<Rightarrow> True
            | Some p \<Rightarrow> p \<noteq> user_id u
              \<and> (\<exists>v \<in> set (users db). user_id v = p \<and> partner_id v = Some (user_id u))"
          unfolding pairing_inv_def by blast
        with Some obtain v where v: "v \<in> set (users db)" "user_id v = p"
          "partner_id v = Some (user_id u)" and pne: "p \<noteq> user_id u"
          by auto
        have "user_id v \<noteq> user_id d"
        proof
          assume "user_id v = user_id d"
          with v(1) d(1) have "v = d" by (rule inj)
          with v(3) none(1) show False by simp
        qed
        moreover have "user_id v \<noteq> user_id f"
        proof
          assume "user_id v = user_id f"
          with v(1) f(1) have "v = f" by (rule inj)
          with v(3) none(2) show False by simp
        qed
        ultimately have "k v = v" by (simp add: k_other)
        with v(1) us have "v \<in> set (users db')" by force
        with v(2,3) have "\<exists>v \<in> set (users db'). user_id v = p \<and> partner_id v = Some (user_id u)"
          by blast
        with pne nonempty show ?thesis by (simp add: wu Some)
      qed
    qed
  qed
  from d1 ok show "pairing_inv db'"
    unfolding pairing_inv_def by blast
  have "find_one (\<lambda>u. user_id u = user_id (k d)) (users db') = Some (k d)"
    using d1(1) kd by (rule find_one_distinct)
  then have fd: "find_one (\<lambda>u. user_id u = user_id d) (users db') = Some (k d)"
    by (simp add: k_id)
  have "find_one (\<lambda>u. user_id u = user_id (k f)) (users db') = Some (k f)"
    using d1(1) kf by (rule find_one_distinct)
  then have ff: "find_one (\<lambda>u. user_id u = user_id f) (users db') = Some (k f)"
    by (simp add: k_id)
  from fd ff k_d [of d] k_f [of f]
  show "\<exists>d' f'. find_one (\<lambda>u. user_id u = user_id d) (users db') = Some d'
           \<and> partner_id d' = Some (user_id f)
           \<and> find_one (\<lambda>u. user_id u = user_id f) (users db') = Some f'
           \<and> partner_id f' = Some (user_id d)"
    by simp
qed

lemma uuids_fresh_Cons:
  assumes "uuids_fresh ((now, r) # rs) db"
  shows "\<forall>i \<in> set (new_ids r). i \<notin> set (store_ids db)"
    and "uuids_fresh rs (exec verify now r db)"
proof -
  define rest where "rest = concat (map (\<lambda>(now, r). new_ids r) rs)"
  from assms have "distinct (new_ids r @ rest)"
    "\<forall>i \<in> set (new_ids r @ rest). i \<notin> set (store_ids db)"
    by (simp_all add: uuids_fresh_def Let_def rest_def)
  then have a: "distinct rest" "set (new_ids r) \<inter> set rest = {}"
    "\<forall>i \<in> set (new_ids r) \<union> set rest. i \<notin> set (store_ids db)"
    by simp_all
  from a(3) show "\<forall>i \<in> set (new_ids r). i \<notin> set (store_ids db)" by blast
  have "i \<notin> set (store_ids (exec verify now r db))" if "i \<in> set rest" for i
  proof -
    from a(2,3) that have "i \<notin> set (new_ids r)" "i \<notin> set (store_ids db)" by blast+
    with store_ids_exec [of verify now r db] show ?thesis by blast
  qed
  with a(1) show "uuids_fresh rs (exec verify now r db)"
    unfolding uuids_fresh_def Let_def rest_def by blast
qed

lemma pairing_inv_users:
  assumes e: "users db' = users db"
  shows "pairing_inv db' = pairing_inv db"
  unfolding pairing_inv_def e ..

lemma pairing_inv_exec:
  assumes inv: "pairing_inv db" and fresh: "\<forall>i \<in> set (new_ids r). i \<notin> set (store_ids db)"
  shows "pairing_inv (exec verify now r db)"
proof -
  consider (same) "users (exec verify now r db) = users db"
    | (inserted) new where "users (exec verify now r db) = users db @ [new]"
        "new_ids r = [user_id new]" "user_id new \<noteq> []" "partner_id new = None"
        "\<forall>u \<in> set (users db). friend_code u \<noteq> friend_code new"
    | (connect) d code where "d \<in> set (users db)"
        "exec verify now r db = snd (connect_friend code (User d) db)"
    using users_exec [of verify now r db] by blast
  then show ?thesis
  proof cases
    case same
    from pairing_inv_users [OF same] inv show ?thesis by simp
  next
    case inserted
    from fresh inserted(2) have "user_id new \<notin> set (map user_id (users db))"
      by (simp add: store_ids_def)
    with inv inserted show ?thesis by - (rule pairing_inv_insert [of db _ new], simp_all)
  next
    case connect
    let ?db' = "snd (connect_friend code (User d) db)"
    from connect_friend_users [of code "User d" db]
    consider "users ?db' = users db"
      | f where "f \<in> set (users db)" "user_id f \<noteq> user_id d"
          "\<not> truthy (partner_id d)" "\<not> truthy (partner_id f)"
          "users ?db' =
             update_one (\<lambda>u. user_id u = user_id f) (\<lambda>u. u\<lparr>partner_id := Some (user_id d)\<rparr>)
               (update_one (\<lambda>u. user_id u = user_id d)
                  (\<lambda>u. u\<lparr>partner_id := Some (user_id f)\<rparr>) (users db))"
      by (auto simp: user_id_User partner_id_User)
    then have "pairing_inv ?db'"
    proof cases
      case 1
      from pairing_inv_users [OF 1] inv show ?thesis by simp
    next
      case 2
      with inv connect(1) show ?thesis
        by - (rule pairing_inv_link(1) [of db d f], simp_all)
    qed
    with connect(2) show ?thesis by simp
  qed
qed

lemma pairing_inv_run:
  "pairing_inv db \<Longrightarrow> uuids_fresh rs db \<Longrightarrow> pairing_inv (run verify rs db)"
proof (induction rs arbitrary: db)
  case Nil
  then show ?case by simp
next
  case (Cons nr rs)
  obtain now r where nr: "nr = (now, r)" by (cases nr)
  from Cons.prems(2) have "\<forall>i \<in> set (new_ids r). i \<notin> set (store_ids db)"
    and fresh: "uuids_fresh rs (exec verify now r db)"
    unfolding nr by (rule uuids_fresh_Cons)+
  with Cons.prems(1) have "pairing_inv (exec verify now r db)"
    by - (rule pairing_inv_exec, simp_all)
  with fresh show ?case unfolding nr by (simp add: Cons.IH)
qed

lemma pairing_inv_empty: "pairing_inv empty_store"
  by (simp add: pairing_inv_def empty_store_def)

subsection \<open>The invariant of the items\<close>

lemma items_inv_same:
  assumes b: "bucket_items db' = bucket_items db"
    and c: "completed_items db' = completed_items db"
  shows "items_inv db' = items_inv db"
  unfolding items_inv_def b c ..

lemma items_inv_created:
  assumes inv: "items_inv db"
    and b: "bucket_items db' = bucket_items db @ [new]"
    and c: "completed_items db' = completed_items db"
    and fresh: "item_id new \<notin> set (store_ids db)"
  shows "items_inv db'"
proof -
  from fresh have n: "item_id new \<notin> item_id ` set (bucket_items db)"
    "item_id new \<notin> c_item_id ` set (completed_items db)"
    by (simp_all add: store_ids_def)
  from inv have d: "distinct (map item_id (bucket_items db))"
      "distinct (map c_item_id (completed_items db))"
    and flagged: "\<forall>c \<in> set (completed_items db). \<forall>i \<in> set (bucket_items db).
        item_id i = c_item_id c \<longrightarrow> completed i"
    by (simp_all add: items_inv_def)
  from d n have "distinct (map item_id (bucket_items db'))"
      "distinct (map c_item_id (completed_items db'))"
    by (simp_all add: b c)
  moreover from flagged n(2) have "\<forall>c \<in> set (completed_items db'). \<forall>i \<in> set (bucket_items db').
        item_id i = c_item_id c \<longrightarrow> completed i"
    unfolding b c by auto
  ultimately show ?thesis by (simp add: items_inv_def)
qed

lemma items_inv_deleted:
  assumes inv: "items_inv db"
    and b: "bucket_items db' = delete_one q (bucket_items db)"
    and c: "completed_items db' = completed_items db"
  shows "items_inv db'"
proof -
  have sub: "set (delete_one q (bucket_items db)) \<subseteq> set (bucket_items db)"
    by (rule set_delete_one)
  from inv have "distinct (map item_id (delete_one q (bucket_items db)))"
    by (simp add: items_inv_def distinct_delete_one)
  with inv sub show ?thesis
    unfolding items_inv_def b c by blast
qed

lemma items_inv_completed:
  assumes inv: "items_inv db"
    and i: "i \<in> set (bucket_items db)" "\<not> completed i"
    and b: "bucket_items db' =
        update_one (\<lambda>j. item_id j = item_id i) (\<lambda>j. j\<lparr>completed := True\<rparr>) (bucket_items db)"
    and c: "completed_items db' = completed_items db @ [c]" "c_item_id c = item_id i"
  shows "items_inv db'"
    and "\<forall>j \<in> set (bucket_items db'). item_id j = item_id i \<longrightarrow> completed j"
proof -
  define k :: "bucket_item \<Rightarrow> bucket_item"
    where "k = (\<lambda>j. if item_id j = item_id i then j\<lparr>completed := True\<rparr> else j)"
  have k_id: "item_id (k j) = item_id j" for j by (simp add: k_def)
  have k_hit: "completed (k j)" if "item_id j = item_id i" for j
    using that by (simp add: k_def)
  have k_keep: "completed (k j)" if "completed j" for j
    using that by (simp add: k_def)
  from inv have d: "distinct (map item_id (bucket_items db))"
      "distinct (map c_item_id (completed_items db))"
    and flagged: "\<forall>c \<in> set (completed_items db). \<forall>i \<in> set (bucket_items db).
        item_id i = c_item_id c \<longrightarrow> completed i"
    by (simp_all add: items_inv_def)
  have "update_one (\<lambda>j. item_id j = item_id i) (\<lambda>j. j\<lparr>completed := True\<rparr>) (bucket_items db)
      = map k (bucket_items db)"
    unfolding k_def using d(1) by (rule update_one_distinct) simp
  with b have bs: "bucket_items db' = map k (bucket_items db)" by simp
  have ids: "map item_id (bucket_items db') = map item_id (bucket_items db)"
    unfolding bs by (simp add: k_id)
  have d1: "distinct (map item_id (bucket_items db'))"
    by (simp only: ids d(1))
  from flagged i have "item_id i \<notin> c_item_id ` set (completed_items db)" by force
  with d(2) have d2: "distinct (map c_item_id (completed_items db'))"
    by (simp add: c)
  have all: "completed j'" if j': "j' \<in> set (bucket_items db')"
      and c': "c' \<in> set (completed_items db')" "item_id j' = c_item_id c'" for j' c'
  proof -
    from j' bs obtain j where j: "j \<in> set (bucket_items db)" "j' = k j" by auto
    show ?thesis
    proof (cases "c' = c")
      case True
      with c' c(2) j(2) have "item_id j = item_id i" by (simp add: k_id)
      then show ?thesis unfolding j(2) by (rule k_hit)
    next
      case False
      with c' c(1) have "c' \<in> set (completed_items db)" by simp
      moreover from c'(2) j(2) have "item_id j = c_item_id c'" by (simp add: k_id)
      ultimately have "completed j" using flagged j(1) by blast
      then show ?thesis unfolding j(2) by (rule k_keep)
    qed
  qed
  from d1 d2 all show "items_inv db'"
    unfolding items_inv_def by blast
  show "\<forall>j \<in> set (bucket_items db'). item_id j = item_id i \<longrightarrow> completed j"
  proof (intro ballI impI)
    fix j' assume "j' \<in> set (bucket_items db')" "item_id j' = item_id i"
    with bs obtain j where "j' = k j" "item_id j = item_id i" by (auto simp: k_id)
    then show "completed j'" by (simp add: k_hit)
  qed
qed

lemma items_inv_exec:
  assumes inv: "items_inv db" and fresh: "\<forall>i \<in> set (new_ids r). i \<notin> set (store_ids db)"
  shows "items_inv (exec verify now r db)"
proof -
  let ?db' = "exec verify now r db"
  consider
      (same) "bucket_items ?db' = bucket_items db" "completed_items ?db' = completed_items db"
    | (created) new where "bucket_items ?db' = bucket_items db @ [new]"
        "completed_items ?db' = completed_items db" "new_ids r = [item_id new]"
    | (deleted) q where "bucket_items ?db' = delete_one q (bucket_items db)"
        "completed_items ?db' = completed_items db"
    | (completed) i c where "i \<in> set (bucket_items db)" "\<not> completed i"
        "bucket_items ?db' =
           update_one (\<lambda>j. item_id j = item_id i) (\<lambda>j. j\<lparr>completed := True\<rparr>)
             (bucket_items db)"
        "completed_items ?db' = completed_items db @ [c]" "c_item_id c = item_id i"
    using items_exec [of verify now r db] by blast
  then show ?thesis
  proof cases
    case same
    from items_inv_same [OF same] inv show ?thesis by simp
  next
    case created
    with fresh have "item_id new \<notin> set (store_ids db)" by simp
    with inv created(1,2) show ?thesis by (rule items_inv_created)
  next
    case deleted
    with inv show ?thesis by (rule items_inv_deleted)
  next
    case completed
    with inv show ?thesis by (rule items_inv_completed(1))
  qed
qed

lemma items_inv_run:
  "items_inv db \<Longrightarrow> uuids_fresh rs db \<Longrightarrow> items_inv (run verify rs db)"
proof (induction rs arbitrary: db)
  case Nil
  then show ?case by simp
next
  case (Cons nr rs)
  obtain now r where nr: "nr = (now, r)" by (cases nr)
  from Cons.prems(2) have f: "\<forall>i \<in> set (new_ids r). i \<notin> set (store_ids db)"
    and fresh: "uuids_fresh rs (exec verify now r db)"
    unfolding nr by (rule uuids_fresh_Cons)+
  from Cons.prems(1) f have "items_inv (exec verify now r db)"
    by (rule items_inv_exec)
  with fresh show ?case unfolding nr by (simp add: Cons.IH)
qed

lemma items_inv_empty: "items_inv empty_store"
  by (simp add: items_inv_def empty_store_def)

text \<open>
  A property of the items that an item keeps when it is flagged completed, and that every
  newly made item has, holds of all items after a request.
\<close>

lemma bucket_items_exec_all:
  assumes all: "\<forall>i \<in> set (bucket_items db). P i"
    and flag: "\<And>j. P j \<Longrightarrow> P (j\<lparr>completed := True\<rparr>)"
    and made: "\<And>new. new_ids r = [item_id new] \<Longrightarrow> P new"
  shows "\<forall>i \<in> set (bucket_items (exec verify now r db)). P i"
proof -
  let ?db' = "exec verify now r db"
  consider
      (same) "bucket_items ?db' = bucket_items db"
    | (created) new :: bucket_item where "bucket_items ?db' = bucket_items db @ [new]"
        "new_ids r = [item_id new]"
    | (deleted) q where "bucket_items ?db' = delete_one q (bucket_items db)"
    | (completed) i :: bucket_item where "bucket_items ?db' =
           update_one (\<lambda>j. item_id j = item_id i) (\<lambda>j. j\<lparr>completed := True\<rparr>)
             (bucket_items db)"
    using items_exec [of verify now r db] by blast
  then show ?thesis
  proof cases
    case same
    with all show ?thesis by simp
  next
    case created
    from created(2) have "P new" by (rule made)
    with all created(1) show ?thesis by simp
  next
    case deleted
    have "set (delete_one q (bucket_items db)) \<subseteq> set (bucket_items db)"
      by (rule set_delete_one)
    with all deleted show ?thesis by auto
  next
    case completed
    have "set (update_one (\<lambda>j. item_id j = item_id i) (\<lambda>j. j\<lparr>completed := True\<rparr>)
        (bucket_items db))
          \<subseteq> set (bucket_items db) \<union> (\<lambda>j. j\<lparr>completed := True\<rparr>) ` set (bucket_items db)"
      by (rule set_update_one)
    with completed have sub: "set (bucket_items ?db')
        \<subseteq> set (bucket_items db) \<union> (\<lambda>j. j\<lparr>completed := True\<rparr>) ` set (bucket_items db)"
      by simp
    show ?thesis
    proof
      fix x assume "x \<in> set (bucket_items ?db')"
      with sub consider "x \<in> set (bucket_items db)"
        | j where "j \<in> set (bucket_items db)" "x = j\<lparr>completed := True\<rparr>"
        by blast
      then show "P x"
      proof cases
        case 1
        with all show ?thesis by blast
      next
        case 2
        from all 2(1) have "P j" by blast
        then show ?thesis unfolding 2(2) by (rule flag)
      qed
    qed
  qed
qed

lemma bucket_items_run_all:
  assumes "\<forall>i \<in> set (bucket_items db). P i"
    and flag: "\<And>j. P j \<Longrightarrow> P (j\<lparr>completed := True\<rparr>)"
    and made: "\<And>new. item_id new \<in> set (concat (map (\<lambda>(now, r). new_ids r) rs)) \<Longrightarrow> P new"
  shows "\<forall>i \<in> set (bucket_items (run verify rs db)). P i"
  using assms(1) made
proof (induction rs arbitrary: db)
  case Nil
  then show ?case by simp
next
  case (Cons nr rs)
  obtain now r where nr: "nr = (now, r)" by (cases nr)
  have "\<forall>i \<in> set (bucket_items (exec verify now r db)). P i"
  proof (rule bucket_items_exec_all [OF Cons.prems(1) flag])
    fix new :: bucket_item assume "new_ids r = [item_id new]"
    then have "item_id new \<in> set (concat (map (\<lambda>(now, r). new_ids r) (nr # rs)))"
      by (simp add: nr)
    then show "P new" by (rule Cons.prems(2))
  qed
  moreover have "P new"
    if "item_id new \<in> set (concat (map (\<lambda>(now, r). new_ids r) rs))" for new
  proof -
    from that have "item_id new \<in> set (concat (map (\<lambda>(now, r). new_ids r) (nr # rs)))"
      by simp
    then show ?thesis by (rule Cons.prems(2))
  qed
  ultimately have "\<forall>i \<in> set (bucket_items (run verify rs (exec verify now r db))). P i"
    by (rule Cons.IH)
  then show ?case unfolding nr by simp
qed

lemma complete_NotFound_iff:
  "fst (complete_bucket_item iid ph nt cu u now db) = Inl NotFound \<longleftrightarrow>
     \<not> (\<exists>i \<in> set (bucket_items db).
           item_id i = iid \<and> user_id cu \<in> set (shared_with i) \<and> \<not> completed i)"
proof (cases "find_one (\<lambda>i. item_id i = iid \<and> user_id cu \<in> set (shared_with i)
    \<and> completed i = False) (bucket_items db)")
  case None
  then have a: "fst (complete_bucket_item iid ph nt cu u now db) = Inl NotFound"
    by (simp add: complete_bucket_item_def)
  from None have b: "\<not> (\<exists>i \<in> set (bucket_items db).
      item_id i = iid \<and> user_id cu \<in> set (shared_with i) \<and> \<not> completed i)"
    by (auto simp: find_one_None)
  from a b show ?thesis by simp
next
  case (Some item)
  then have "item \<in> set (bucket_items db)" "item_id item = iid"
    "user_id cu \<in> set (shared_with item)" "\<not> completed item"
    by (auto dest: find_one_Some)
  then have "\<exists>i \<in> set (bucket_items db).
      item_id i = iid \<and> user_id cu \<in> set (shared_with i) \<and> \<not> completed i"
    by blast
  with Some show ?thesis
    by (simp add: complete_bucket_item_def Let_def)
qed

lemma complete_success:
  assumes inv: "items_inv db"
    and run: "complete_bucket_item iid ph nt cu u now db = (Inr c, db1)"
  shows "items_inv db1"
    and "\<forall>j \<in> set (bucket_items db1). item_id j = iid \<longrightarrow> completed j"
    and "c \<in> set (completed_items db1)" and "c_item_id c = iid"
proof -
  let ?q = "\<lambda>i. item_id i = iid \<and> user_id cu \<in> set (shared_with i) \<and> completed i = False"
  from run obtain item where found: "find_one ?q (bucket_items db) = Some item"
    by (cases "find_one ?q (bucket_items db)") (simp_all add: complete_bucket_item_def)
  then have item: "item \<in> set (bucket_items db)" "\<not> completed item" "item_id item = iid"
    by (auto dest: find_one_Some)
  from run found have c: "c_item_id c = iid"
    and db1: "bucket_items db1 = update_one (\<lambda>j. item_id j = iid)
        (\<lambda>j. j\<lparr>completed := True\<rparr>) (bucket_items db)"
      "completed_items db1 = completed_items db @ [c]"
    by (auto simp: complete_bucket_item_def Let_def insert_one_def)
  from c show "c_item_id c = iid" .
  from db1(2) show "c \<in> set (completed_items db1)" by simp
  from db1 c item(3)
  have shape: "bucket_items db1 = update_one (\<lambda>j. item_id j = item_id item)
        (\<lambda>j. j\<lparr>completed := True\<rparr>) (bucket_items db)"
      "completed_items db1 = completed_items db @ [c]" "c_item_id c = item_id item"
    by simp_all
  from inv item(1,2) shape show "items_inv db1"
    by (rule items_inv_completed(1))
  from inv item(1,2) shape
  have "\<forall>j \<in> set (bucket_items db1). item_id j = item_id item \<longrightarrow> completed j"
    by (rule items_inv_completed(2))
  then show "\<forall>j \<in> set (bucket_items db1). item_id j = iid \<longrightarrow> completed j"
    by (simp add: item(3))
qed

lemma distinct_key_count:
  "distinct (map k xs) \<Longrightarrow> length (filter (\<lambda>x. k x = a) xs) \<le> 1"
proof (induction xs)
  case Nil
  then show ?case by simp
next
  case (Cons x xs)
  show ?case
  proof (cases "k x = a")
    case True
    from Cons.prems have nin: "k x \<notin> k ` set xs" by simp
    have "\<forall>y \<in> set xs. k y \<noteq> a"
    proof
      fix y
      assume "y \<in> set xs"
      then have "k y \<in> k ` set xs" by (rule imageI)
      with nin True show "k y \<noteq> a" by metis
    qed
    then have "filter (\<lambda>x. k x = a) xs = []" by (simp add: filter_empty_conv)
    with True show ?thesis by simp
  next
    case False
    with Cons show ?thesis by simp
  qed
qed

subsection \<open>A long list of completed items\<close>

lemma num_of_digits:
  fixes n :: nat
  assumes "n < 10000"
  shows "n = 1000 * (n div 1000 mod 10) + 100 * (n div 100 mod 10) + 10 * (n div 10 mod 10)
           + n mod 10"
proof -
  have d: "n div 10 div 10 = n div 100" "n div 100 div 10 = n div 1000"
    by (simp_all add: div_mult2_eq)
  have a: "n = 10 * (n div 10) + n mod 10" by simp
  have "n div 10 = 10 * (n div 10 div 10) + n div 10 mod 10" by simp
  then have b: "n div 10 = 10 * (n div 100) + n div 10 mod 10" by (simp only: d)
  have "n div 100 = 10 * (n div 100 div 10) + n div 100 mod 10" by simp
  then have c: "n div 100 = 10 * (n div 1000) + n div 100 mod 10" by (simp only: d)
  from assms have e: "n div 1000 mod 10 = n div 1000" by simp
  from a b c show ?thesis unfolding e by linarith
qed

lemma digit_char_inj:
  assumes "char_of (48 + a :: nat) = (char_of (48 + b :: nat) :: char)" "a < 10" "b < 10"
  shows "a = b"
proof -
  from assms(1)
  have "(of_char (char_of (48 + a) :: char) :: nat) = of_char (char_of (48 + b) :: char)"
    by simp
  with assms(2,3) show ?thesis by (simp add: of_char_of)
qed

lemma digits4_inj:
  assumes "digits4 n = digits4 m" "n < 10000" "m < 10000"
  shows "n = m"
proof -
  from assms(1) have a: "n div 1000 mod 10 = m div 1000 mod 10"
    and b: "n div 100 mod 10 = m div 100 mod 10"
    and c: "n div 10 mod 10 = m div 10 mod 10"
    and d: "n mod 10 = m mod 10"
    by (auto simp: digits4_def intro: digit_char_inj)
  from num_of_digits [OF assms(2)] num_of_digits [OF assms(3)] show ?thesis
    by (simp only: a b c d)
qed

lemma distinct_digits4: "n \<le> 10000 \<Longrightarrow> distinct (map (\<lambda>k. p @ digits4 k) [0..<n])"
  by (auto simp: distinct_map inj_on_def dest: digits4_inj)

lemma take_rev_upt:
  assumes "m = Suc n"
  shows "take n (rev [0..<m]) = rev [1..<m]"
proof -
  from assms have "length [0..<m] - n = 1" by simp
  moreover have "drop 1 [0..<m] = [1..<m]"
    by (simp only: drop_upt) simp
  ultimately show ?thesis by (simp only: take_rev)
qed

lemma sort_desc_ascending:
  "sort_desc (map done_n [0..<n]) = map done_n (rev [0..<n])"
  unfolding sort_desc_def
proof (rule properties_for_sort_key)
  show "mset (map done_n (rev [0..<n])) = mset (map done_n [0..<n])"
    by simp
next
  fix k assume "k \<in> set (map done_n (rev [0..<n]))"
  then obtain j where k: "k = done_n j" by auto
  have "length (filter (\<lambda>i. i = j) [0..<n]) \<le> 1"
    using distinct_key_count [of "\<lambda>i. i" "[0..<n]" j] by simp
  then have "rev (filter (\<lambda>i. i = j) [0..<n]) = filter (\<lambda>i. i = j) [0..<n]"
    by (cases "filter (\<lambda>i. i = j) [0..<n]") simp_all
  then have "filter (\<lambda>i. i = j) (rev [0..<n]) = filter (\<lambda>i. i = j) [0..<n]"
    by (simp add: rev_filter)
  then have "map done_n (filter (\<lambda>i. i = j) (rev [0..<n]))
      = map done_n (filter (\<lambda>i. i = j) [0..<n])"
    by simp
  moreover have "(\<lambda>x. - completed_at k = - completed_at x) \<circ> done_n = (\<lambda>i. i = j)"
    by (auto simp: k done_n_def fun_eq_iff)
  ultimately show "filter (\<lambda>x. - completed_at k = - completed_at x) (map done_n (rev [0..<n]))
      = filter (\<lambda>x. - completed_at k = - completed_at x) (map done_n [0..<n])"
    by (simp only: filter_map)
next
  have "map (\<lambda>c. - completed_at c) (map done_n (rev [0..<n])) = rev (map (\<lambda>i. - int i) [0..<n])"
    by (simp add: done_n_def rev_map comp_def)
  moreover have "sorted (rev (map (\<lambda>i. - int i) [0..<n]))"
    by (simp add: sorted_rev_iff_nth_mono)
  ultimately show "sorted (map (\<lambda>c. - completed_at c) (map done_n (rev [0..<n])))"
    by simp
qed

lemma filter_done_n:
  "filter (\<lambda>c. completed_by c \<in> set [''user_c'', p]) (map done_n ns) = map done_n ns"
  by (induction ns) (simp_all add: done_n_def)

lemma done_n_by: "list_all (\<lambda>c. completed_by c = ''user_c'') (map done_n ns)"
  by (induction ns) (simp_all add: done_n_def)

lemma done_n_missing: "done_n 0 \<notin> set (map done_n (rev [1..<m]))"
proof
  assume "done_n 0 \<in> set (map done_n (rev [1..<m]))"
  then obtain k where "k \<in> set [1..<m]" "done_n 0 = done_n k" by auto
  then have "0 < k" "completed_at (done_n 0) = completed_at (done_n k)" by simp_all
  then show False by (simp add: done_n_def)
qed

lemma items_inv_many:
  assumes "bucket_items db = map item_n [0..<n]" "completed_items db = map done_n [0..<n]"
    and "n \<le> 10000"
  shows "items_inv db"
proof -
  have ids: "map item_id (bucket_items db) = map (\<lambda>k. ''item_00000000'' @ digits4 k) [0..<n]"
    and cids: "map c_item_id (completed_items db)
        = map (\<lambda>k. ''item_00000000'' @ digits4 k) [0..<n]"
    by (simp_all add: assms item_n_def done_n_def comp_def)
  from assms(3) have d: "distinct (map (\<lambda>k. ''item_00000000'' @ digits4 k) [0..<n])"
    by (rule distinct_digits4)
  have "\<forall>i \<in> set (bucket_items db). completed i"
    by (auto simp: assms item_n_def)
  with ids cids d show ?thesis
    unfolding items_inv_def by (simp only:) blast
qed

lemma get_completed_items_paired:
  assumes "find_one (\<lambda>u. user_id u = user_id cu) (users db) = Some d"
    and "partner_id d = Some p" "p \<noteq> []"
  shows "get_completed_items cu db
    = (Inr (take 1000 (sort_desc (filter (\<lambda>c. completed_by c \<in> set [user_id cu, p])
         (completed_items db)))), db)"
  using assms by (simp add: get_completed_items_def)

lemma store_items_updated:
  "users (db\<lparr>bucket_items := a, completed_items := b\<rparr>) = users db"
  "bucket_items (db\<lparr>bucket_items := a, completed_items := b\<rparr>) = a"
  "completed_items (db\<lparr>bucket_items := a, completed_items := b\<rparr>) = b"
  by simp_all

lemma pairing_inv_db_users: "pairing_inv db_users"
  by (simp add: pairing_inv_def example_defs)

text \<open>The store \<open>db_many\<close> satisfies both invariants.\<close>

lemma db_many_invariants: "items_inv db_many \<and> pairing_inv db_many"
proof -
  have users: "users db_many = users db_users"
    and items: "bucket_items db_many = map item_n [0..<1001]"
    and all: "completed_items db_many = map done_n [0..<1001]"
    unfolding db_many_def by (rule store_items_updated)+
  have "(1001 :: nat) \<le> 10000" by simp
  with items all have "items_inv db_many"
    by (rule items_inv_many)
  moreover have "pairing_inv db_many"
    using pairing_inv_db_users by (simp only: pairing_inv_users [OF users])
  ultimately show ?thesis ..
qed

subsection \<open>Pairing: the order of the checks\<close>

text \<open>
  C2. \<open>connect_friend\<close> checks, in this order: the requester's \<open>partner_id\<close> (a value
  that Python takes as true: \<open>AlreadyPaired\<close>), whether a user holds the code
  (\<open>FriendCodeNotFound\<close>), whether the first user holding it is the requester
  (\<open>SelfPairing\<close>), and that user's \<open>partner_id\<close> (\<open>TargetAlreadyPaired\<close>). It
  answers with the matched user and writes the two \<open>partner_id\<close> fields exactly when
  the four checks pass; when it fails, the error is one of the four and the store is
  the one it was given.
\<close>

theorem connect_friend_check_order:
  assumes "connect_friend code cu db = (r, db')"
  shows "(truthy (partner_id cu) \<longrightarrow> r = Inl AlreadyPaired)
    \<and> (\<not> truthy (partner_id cu) \<and> (\<forall>u \<in> set (users db). friend_code u \<noteq> code)
          \<longrightarrow> r = Inl FriendCodeNotFound)
    \<and> (\<forall>f. \<not> truthy (partner_id cu)
           \<and> find_one (\<lambda>u. friend_code u = code) (users db) = Some f
          \<longrightarrow> (user_id f = user_id cu \<longrightarrow> r = Inl SelfPairing)
            \<and> (user_id f \<noteq> user_id cu \<and> truthy (partner_id f) \<longrightarrow> r = Inl TargetAlreadyPaired)
            \<and> (user_id f \<noteq> user_id cu \<and> \<not> truthy (partner_id f) \<longrightarrow>
                 r = Inr f
               \<and> db' = db\<lparr>users :=
                    update_one (\<lambda>u. user_id u = user_id f)
                      (\<lambda>u. u\<lparr>partner_id := Some (user_id cu)\<rparr>)
                      (update_one (\<lambda>u. user_id u = user_id cu)
                         (\<lambda>u. u\<lparr>partner_id := Some (user_id f)\<rparr>) (users db))\<rparr>))
    \<and> (\<forall>e. r = Inl e \<longrightarrow> db' = db
           \<and> e \<in> {AlreadyPaired, FriendCodeNotFound, SelfPairing, TargetAlreadyPaired})
    \<and> (\<forall>f. r = Inr f \<longrightarrow> \<not> truthy (partner_id cu)
           \<and> find_one (\<lambda>u. friend_code u = code) (users db) = Some f
           \<and> user_id f \<noteq> user_id cu \<and> \<not> truthy (partner_id f))"
  using assms
  by (auto simp: connect_friend_def Let_def find_one_None split: option.splits if_splits
      dest: find_one_Some)

theorem connect_friend_check_order_witness:
  "connect_friend ''BBBBB'' (User ann) db_users =
      (Inr bob, db_users\<lparr>users := [ann\<lparr>partner_id := Some ''user_b''\<rparr>,
                                    bob\<lparr>partner_id := Some ''user_a''\<rparr>, cat, dan]\<rparr>)
   \<and> \<not> truthy (partner_id (User ann))
   \<and> find_one (\<lambda>u. friend_code u = ''BBBBB'') (users db_users) = Some bob
   \<and> user_id bob \<noteq> user_id (User ann) \<and> \<not> truthy (partner_id bob)"
proof -
  have run: "connect_friend ''BBBBB'' (User ann) db_users =
      (Inr bob, db_users\<lparr>users := [ann\<lparr>partner_id := Some ''user_b''\<rparr>,
                                    bob\<lparr>partner_id := Some ''user_a''\<rparr>, cat, dan]\<rparr>)"
    by (simp add: connect_friend_def User_def user.truncate_def ann_def bob_def cat_def
        dan_def db_users_def)
  from connect_friend_check_order [OF run] show ?thesis
    using run by blast
qed

subsection \<open>Deleting a completed item\<close>

text \<open>
  C10. The query of \<open>delete_bucket_item\<close> has no condition on \<open>completed\<close>: whenever
  an item with the identifier lists the user in \<open>shared_with\<close>, completed or not, the
  request succeeds and removes one such item. It leaves the completed items and the
  users as they are, so \<open>get_completed_items\<close> answers every user as before.
\<close>

theorem delete_ignores_completed:
  assumes "i \<in> set (bucket_items db)" and "item_id i = iid"
    and "user_id cu \<in> set (shared_with i)"
  shows "\<exists>db'. delete_bucket_item iid cu db = (Inr ''Item deleted successfully'', db')
     \<and> bucket_items db' =
         delete_one (\<lambda>j. item_id j = iid \<and> user_id cu \<in> set (shared_with j)) (bucket_items db)
     \<and> Suc (length (bucket_items db')) = length (bucket_items db)
     \<and> completed_items db' = completed_items db \<and> users db' = users db
     \<and> user_sessions db' = user_sessions db
     \<and> (\<forall>u. fst (get_completed_items u db') = fst (get_completed_items u db))"
proof -
  let ?q = "\<lambda>j. item_id j = iid \<and> user_id cu \<in> set (shared_with j)"
  from assms obtain j where j: "find_one ?q (bucket_items db) = Some j"
    using find_one_exists [of i "bucket_items db" ?q] by blast
  then have "deleted_count ?q (bucket_items db) = 1"
    by (simp add: deleted_count_def)
  moreover have "Suc (length (delete_one ?q (bucket_items db))) = length (bucket_items db)"
    using j by (rule length_delete_one)
  ultimately show ?thesis
    by (simp add: delete_bucket_item_def get_completed_items_def split: option.splits)
qed

theorem delete_ignores_completed_witness:
  "paris \<in> set (bucket_items db_items) \<and> completed paris
   \<and> user_id (User dan) \<in> set (shared_with paris)
   \<and> delete_bucket_item ''item_1'' (User dan) db_items
       = (Inr ''Item deleted successfully'', db_items\<lparr>bucket_items := []\<rparr>)
   \<and> fst (get_completed_items (User cat) (db_items\<lparr>bucket_items := []\<rparr>)) = Inr [paris_done]"
proof -
  have h: "paris \<in> set (bucket_items db_items)" "item_id paris = ''item_1''"
    "user_id (User dan) \<in> set (shared_with paris)"
    by (simp_all add: example_defs)
  have run: "delete_bucket_item ''item_1'' (User dan) db_items
       = (Inr ''Item deleted successfully'', db_items\<lparr>bucket_items := []\<rparr>)"
    by (simp add: delete_bucket_item_def deleted_count_def example_defs)
  have before: "fst (get_completed_items (User cat) db_items) = Inr [paris_done]"
    by (simp add: get_completed_items_def sort_desc_def example_defs)
  from delete_ignores_completed [OF h] run
  have "fst (get_completed_items (User cat) (db_items\<lparr>bucket_items := []\<rparr>))
         = fst (get_completed_items (User cat) db_items)"
    by auto
  with h run before show ?thesis by (simp add: paris_def)
qed

subsection \<open>Authentication\<close>

text \<open>
  C5. \<open>get_current_user\<close> takes the token to be the header with every occurrence of
  \<open>"Bearer "\<close> removed (\<open>str.replace\<close>), not the header without that prefix. The
  header \<open>session_Bearer a\<close> does not start with \<open>"Bearer "\<close> and no session holds
  it as a token, yet the request is authenticated as Ann, whose token is \<open>session_a\<close>.
\<close>

theorem get_current_user_inner_bearer:
  "map session_token (user_sessions db_users) = [''session_a'', ''session_c'']
   \<and> \<not> prefix ''Bearer '' ''session_Bearer a''
   \<and> get_current_user (Some ''session_Bearer a'') 5 db_users = Inr (User ann)"
  by (simp add: get_current_user_def example_defs)

subsection \<open>Emails of provisioned accounts\<close>

text \<open>
  C6. \<open>create_session\<close> looks the email of the identity service up and stores it as it
  is given, where \<open>register\<close> and \<open>login\<close> use \<open>email.lower()\<close>. With
  \<open>ann@x.com\<close> registered, the answer \<open>Ann@X.com\<close> makes a second account, whose
  email is not in lower case and equals the first up to case.
\<close>

theorem create_session_email_case:
  "map email (users db_users) = [''ann@x.com'', ''bob@x.com'', ''cat@x.com'', ''dan@x.com'']
   \<and> lower (sd_email ext_ann) = ''ann@x.com''
   \<and> create_session (Some ''sid'') (Some ext_ann) ''0123456789abcdef'' [''EEEEE''] 7 db_users
       = Some (Inr ext_ann, db_ext)
   \<and> map email (users db_ext)
       = [''ann@x.com'', ''bob@x.com'', ''cat@x.com'', ''dan@x.com'', ''Ann@X.com'']"
  by (simp add: create_session_def insert_one_def ext_ann_def db_ext_def lower_Ann Let_def
      example_defs)

subsection \<open>Logout\<close>

text \<open>
  C7, as stated, fails: \<open>logout\<close> depends on \<open>get_current_user\<close>. Once Ann has logged
  out no session holds her token, and logging out with it is refused with
  \<open>InvalidSession\<close>. At time 1001 her session of \<open>db_users\<close> has expired: logging out
  is refused with \<open>SessionExpired\<close> and the session record stays.
\<close>

theorem logout_twice_counterexample:
  "api_logout (Some ''Bearer session_a'') 5 db_users
     = (Inr ''Logged out successfully'', db_logged_out)
   \<and> map session_token (user_sessions db_logged_out) = [''session_c'']
   \<and> api_logout (Some ''Bearer session_a'') 5 db_logged_out
     = (Inl InvalidSession, db_logged_out)
   \<and> map session_token (user_sessions db_users) = [''session_a'', ''session_c'']
   \<and> api_logout (Some ''Bearer session_a'') 1001 db_users = (Inl SessionExpired, db_users)"
  by (simp add: api_logout_def depends_def logout_def get_current_user_def db_logged_out_def
      example_defs)

text \<open>
  C7, amended. The logout endpoint authenticates first. When \<open>get_current_user\<close>
  fails, logout fails with the same error and the store is as it was, so no session
  record is deleted. In particular a header whose token no session holds is refused, with
  \<open>NotAuthenticated\<close> or \<open>InvalidSession\<close>; only the body of the handler, taken by
  itself, answers such a header with success and no change. When \<open>get_current_user\<close>
  succeeds, logout succeeds and deletes exactly one session record, the first that holds
  the token.
\<close>

theorem logout_authenticated:
  "(\<forall>e. get_current_user authorization now db = Inl e \<longrightarrow>
        api_logout authorization now db = (Inl e, db))
   \<and> (\<forall>header. authorization = Some header
          \<and> (\<forall>s \<in> set (user_sessions db).
                session_token s \<noteq> str_replace ''Bearer '' [] header) \<longrightarrow>
        (\<exists>e \<in> {NotAuthenticated, InvalidSession}. api_logout authorization now db = (Inl e, db))
        \<and> logout cu authorization db = (Inr ''Logged out successfully'', db))
   \<and> (\<forall>u. get_current_user authorization now db = Inr u \<longrightarrow>
        (\<exists>header. authorization = Some header
          \<and> api_logout authorization now db
              = (Inr ''Logged out successfully'',
                 db\<lparr>user_sessions := delete_one
                      (\<lambda>s. session_token s = str_replace ''Bearer '' [] header)
                      (user_sessions db)\<rparr>)
          \<and> Suc (length (delete_one (\<lambda>s. session_token s = str_replace ''Bearer '' [] header)
                      (user_sessions db))) = length (user_sessions db)))"
proof (intro conjI allI impI)
  fix e assume "get_current_user authorization now db = Inl e"
  then show "api_logout authorization now db = (Inl e, db)"
    by (simp add: api_logout_def depends_def)
next
  fix header
  assume h: "authorization = Some header
     \<and> (\<forall>s \<in> set (user_sessions db). session_token s \<noteq> str_replace ''Bearer '' [] header)"
  then have none: "find_one (\<lambda>s. session_token s = str_replace ''Bearer '' [] header)
      (user_sessions db) = None"
    by (simp add: find_one_None)
  with h show "\<exists>e \<in> {NotAuthenticated, InvalidSession}.
      api_logout authorization now db = (Inl e, db)"
    by (simp add: api_logout_def depends_def get_current_user_def)
  from h have "delete_one (\<lambda>s. session_token s = str_replace ''Bearer '' [] header)
      (user_sessions db) = user_sessions db"
    by (simp add: delete_one_none)
  with h show "logout cu authorization db = (Inr ''Logged out successfully'', db)"
    by (simp add: logout_def)
next
  fix u assume ok: "get_current_user authorization now db = Inr u"
  from get_current_user_cases [OF ok] obtain header s where
    h: "authorization = Some header" "header \<noteq> []"
    and s: "find_one (\<lambda>s. session_token s = str_replace ''Bearer '' [] header)
              (user_sessions db) = Some s"
    by auto
  from ok h have "api_logout authorization now db
      = (Inr ''Logged out successfully'',
         db\<lparr>user_sessions := delete_one
              (\<lambda>s. session_token s = str_replace ''Bearer '' [] header) (user_sessions db)\<rparr>)"
    by (simp add: api_logout_def depends_def logout_def)
  with h length_delete_one [OF s]
  show "\<exists>header. authorization = Some header
          \<and> api_logout authorization now db
              = (Inr ''Logged out successfully'',
                 db\<lparr>user_sessions := delete_one
                      (\<lambda>s. session_token s = str_replace ''Bearer '' [] header)
                      (user_sessions db)\<rparr>)
          \<and> Suc (length (delete_one (\<lambda>s. session_token s = str_replace ''Bearer '' [] header)
                      (user_sessions db))) = length (user_sessions db)"
    by simp
qed

theorem logout_authenticated_witness:
  "get_current_user (Some ''Bearer session_a'') 5 db_users = Inr (User ann)
   \<and> api_logout (Some ''Bearer session_a'') 5 db_users
     = (Inr ''Logged out successfully'', db_logged_out)
   \<and> get_current_user (Some ''Bearer session_a'') 1001 db_users = Inl SessionExpired
   \<and> api_logout (Some ''Bearer session_a'') 1001 db_users = (Inl SessionExpired, db_users)"
proof -
  have ok: "get_current_user (Some ''Bearer session_a'') 5 db_users = Inr (User ann)"
    and late: "get_current_user (Some ''Bearer session_a'') 1001 db_users = Inl SessionExpired"
    by (simp_all add: get_current_user_def example_defs)
  from logout_authenticated [where authorization = "Some ''Bearer session_a''" and now = 1001
      and db = db_users] late
  have refused: "api_logout (Some ''Bearer session_a'') 1001 db_users
      = (Inl SessionExpired, db_users)"
    by blast
  from logout_authenticated [where authorization = "Some ''Bearer session_a''" and now = 5
      and db = db_users] ok
  have "api_logout (Some ''Bearer session_a'') 5 db_users
      = (Inr ''Logged out successfully'',
         db_users\<lparr>user_sessions := delete_one
            (\<lambda>s. session_token s = str_replace ''Bearer '' [] ''Bearer session_a'')
            (user_sessions db_users)\<rparr>)"
    by auto
  with ok late refused show ?thesis by (simp add: db_logged_out_def example_defs)
qed

subsection \<open>The session of an exchanged external session\<close>




subsection \<open>Listing completed items\<close>

text \<open>
  What the listing returns in general. For a user whose stored \<open>partner_id\<close> is unset
  (\<open>None\<close> or empty) the list is empty. Otherwise the answer \<open>r\<close> consists of records
  completed by the user or the partner, in descending order of \<open>completed_at\<close>; it has
  1000 records when more than 1000 match and all of them otherwise, and every matching
  record left out (\<open>rest\<close>) is no newer than any record returned.
\<close>

lemma get_completed_items_newest:
  assumes "find_one (\<lambda>u. user_id u = user_id cu) (users db) = Some d"
  shows "(\<not> truthy (partner_id d) \<longrightarrow> get_completed_items cu db = (Inr [], db))
    \<and> (\<forall>p. partner_id d = Some p \<and> p \<noteq> [] \<longrightarrow>
         (\<exists>r rest. get_completed_items cu db = (Inr r, db)
            \<and> mset r + mset rest =
                mset (filter (\<lambda>c. completed_by c = user_id cu \<or> completed_by c = p)
                       (completed_items db))
            \<and> sorted_wrt (\<lambda>a b. completed_at b \<le> completed_at a) r
            \<and> length r = min 1000 (length r + length rest)
            \<and> (length r + length rest \<le> 1000 \<longrightarrow> rest = [])
            \<and> (\<forall>y \<in> set r. \<forall>x \<in> set rest. completed_at x \<le> completed_at y)))"
proof (intro conjI allI impI)
  assume "\<not> truthy (partner_id d)"
  with assms show "get_completed_items cu db = (Inr [], db)"
    by (cases "partner_id d") (simp_all add: get_completed_items_def)
next
  fix p assume p: "partner_id d = Some p \<and> p \<noteq> []"
  let ?m = "filter (\<lambda>c. completed_by c = user_id cu \<or> completed_by c = p) (completed_items db)"
  let ?s = "sort_desc ?m"
  have run: "get_completed_items cu db = (Inr (take 1000 ?s), db)"
    using assms p by (simp add: get_completed_items_def)
  have "mset (take 1000 ?s) + mset (drop 1000 ?s) = mset ?m"
    by (metis append_take_drop_id mset_append mset_sort_desc)
  moreover have "sorted_wrt (\<lambda>a b. completed_at b \<le> completed_at a) (take 1000 ?s)"
    using sorted_sort_desc by (rule sorted_wrt_take)
  moreover have "length (take 1000 ?s) = min 1000 (length (take 1000 ?s) + length (drop 1000 ?s))"
    by simp
  moreover have "length (take 1000 ?s) + length (drop 1000 ?s) \<le> 1000 \<longrightarrow> drop 1000 ?s = []"
    by simp
  moreover have "\<forall>y \<in> set (take 1000 ?s). \<forall>x \<in> set (drop 1000 ?s).
      completed_at x \<le> completed_at y"
    using sorted_sort_desc by (rule take_sorted_newest)
  ultimately show "\<exists>r rest. get_completed_items cu db = (Inr r, db)
            \<and> mset r + mset rest = mset ?m
            \<and> sorted_wrt (\<lambda>a b. completed_at b \<le> completed_at a) r
            \<and> length r = min 1000 (length r + length rest)
            \<and> (length r + length rest \<le> 1000 \<longrightarrow> rest = [])
            \<and> (\<forall>y \<in> set r. \<forall>x \<in> set rest. completed_at x \<le> completed_at y)"
    using run by blast
qed

lemma get_completed_items_newest_example:
  "find_one (\<lambda>u. user_id u = user_id (User dan)) (users db_items) = Some dan
   \<and> partner_id dan = Some ''user_c''
   \<and> get_completed_items (User dan) db_items = (Inr [paris_done], db_items)
   \<and> find_one (\<lambda>u. user_id u = user_id (User ann)) (users db_items) = Some ann
   \<and> \<not> truthy (partner_id ann)
   \<and> get_completed_items (User ann) db_items = (Inr [], db_items)"
proof -
  have dan: "find_one (\<lambda>u. user_id u = user_id (User dan)) (users db_items) = Some dan"
    and ann: "find_one (\<lambda>u. user_id u = user_id (User ann)) (users db_items) = Some ann"
    by (simp_all add: example_defs)
  have p: "partner_id dan = Some ''user_c''" "\<not> truthy (partner_id ann)"
    by (simp_all add: example_defs)
  have run: "get_completed_items (User dan) db_items = (Inr [paris_done], db_items)"
    by (simp add: get_completed_items_def sort_desc_def example_defs)
  from get_completed_items_newest [OF ann] p
  have "get_completed_items (User ann) db_items = (Inr [], db_items)"
    by blast
  moreover from get_completed_items_newest [OF dan] p
  have "\<exists>r. get_completed_items (User dan) db_items = (Inr r, db_items)"
    by auto
  ultimately show ?thesis using dan ann p run by simp
qed

text \<open>
  C9. The handler is documented as \<open>Get all completed items\<close>, and its query as
  \<open>Get all completed items for both users\<close>, but the query ends with
  \<open>to_list(1000)\<close>. In \<open>db_many\<close>, which satisfies both invariants
  (\<open>db_many_invariants\<close>), Cat and Dan are partners and Cat has completed 1001
  different items, item \<open>n\<close> at time \<open>n\<close>. Cat's listing holds 1000 records, from the
  newest down to the record of time 1; the record of time 0, which Cat completed and
  which is stored, is not in it.
\<close>

theorem get_completed_truncated:
  "completed_items db_many = map done_n [0..<1001]
   \<and> list_all (\<lambda>c. completed_by c = ''user_c'') (completed_items db_many)
   \<and> user_id (User cat) = ''user_c''
   \<and> get_completed_items (User cat) db_many = (Inr (map done_n (rev [1..<1001])), db_many)
   \<and> length (map done_n (rev [1..<1001])) = 1000
   \<and> done_n 0 \<in> set (completed_items db_many)
   \<and> done_n 0 \<notin> set (map done_n (rev [1..<1001]))"
proof -
  have users: "users db_many = users db_users"
    and all: "completed_items db_many = map done_n [0..<1001]"
    unfolding db_many_def by (rule store_items_updated)+
  have by_cat: "list_all (\<lambda>c. completed_by c = ''user_c'') (completed_items db_many)"
    unfolding all by (rule done_n_by)
  have cat: "find_one (\<lambda>u. user_id u = user_id (User cat)) (users db_many) = Some cat"
    and p: "partner_id cat = Some ''user_d''" "''user_d'' \<noteq> []"
    and uid: "user_id (User cat) = ''user_c''"
    unfolding users by (simp_all add: example_defs)
  have "(1001 :: nat) = Suc 1000" by simp
  then have cut: "take 1000 (rev [0..<1001]) = rev [1..<1001]"
    by (rule take_rev_upt)
  have "get_completed_items (User cat) db_many
      = (Inr (take 1000 (sort_desc (filter (\<lambda>c. completed_by c \<in> set [user_id (User cat), ''user_d''])
           (completed_items db_many)))), db_many)"
    using cat p by (rule get_completed_items_paired)
  then have run: "get_completed_items (User cat) db_many
      = (Inr (map done_n (rev [1..<1001])), db_many)"
    by (simp only: uid all filter_done_n sort_desc_ascending take_map cut)
  have len: "length (map done_n (rev [1..<1001])) = 1000"
    by (simp only: length_map length_rev length_upt)
  have "(0 :: nat) \<in> set [0..<1001]"
    by (simp only: set_upt) simp
  then have stored: "done_n 0 \<in> set (completed_items db_many)"
    unfolding all by (simp only: set_map) (rule imageI)
  have missing: "done_n 0 \<notin> set (map done_n (rev [1..<1001]))"
    by (rule done_n_missing)
  from all by_cat uid run len stored missing show ?thesis
    by (intro conjI)
qed

subsection \<open>Pairing is mutual\<close>

text \<open>
  C1. In a store that satisfies \<open>pairing_inv\<close>, when two different users \<open>a\<close> and
  \<open>b\<close> have no partner, \<open>connect_friend\<close> called by \<open>a\<close> with the friend code of
  \<open>b\<close> succeeds, and afterwards the stored \<open>partner_id\<close> of \<open>a\<close> is the
  identifier of \<open>b\<close> and that of \<open>b\<close> is the identifier of \<open>a\<close>. Every request
  to any endpoint keeps \<open>pairing_inv\<close>, which says that a \<open>partner_id\<close> is unset or
  names another user whose \<open>partner_id\<close> names this one; it holds in the empty store
  and so in every store reached from it. The handlers do not check the identifiers they
  make from \<open>uuid4\<close>; that these are new is the hypothesis \<open>uuids_fresh\<close>.
\<close>

theorem pairing_mutual_invariant:
  "(pairing_inv db \<and> a \<in> set (users db) \<and> b \<in> set (users db) \<and> a \<noteq> b
      \<and> \<not> truthy (partner_id a) \<and> \<not> truthy (partner_id b) \<longrightarrow>
      (\<exists>db' a' b'. connect_friend (friend_code b) (User a) db = (Inr b, db')
         \<and> find_one (\<lambda>u. user_id u = user_id a) (users db') = Some a'
         \<and> partner_id a' = Some (user_id b)
         \<and> find_one (\<lambda>u. user_id u = user_id b) (users db') = Some b'
         \<and> partner_id b' = Some (user_id a)
         \<and> pairing_inv db'))
   \<and> (pairing_inv db \<and> uuids_fresh rs db \<longrightarrow> pairing_inv (run verify rs db))
   \<and> pairing_inv empty_store"
proof (intro conjI impI)
  assume h: "pairing_inv db \<and> a \<in> set (users db) \<and> b \<in> set (users db) \<and> a \<noteq> b
      \<and> \<not> truthy (partner_id a) \<and> \<not> truthy (partner_id b)"
  then have dist: "distinct (map user_id (users db))" "distinct (map friend_code (users db))"
    by (simp_all add: pairing_inv_def)
  from h dist(2) have found: "find_one (\<lambda>u. friend_code u = friend_code b) (users db) = Some b"
    by - (rule find_one_distinct, simp_all)
  from h dist(1) have ne: "user_id b \<noteq> user_id a"
    by (metis distinct_map inj_onD)
  let ?us = "update_one (\<lambda>u. user_id u = user_id b) (\<lambda>u. u\<lparr>partner_id := Some (user_id a)\<rparr>)
         (update_one (\<lambda>u. user_id u = user_id a)
            (\<lambda>u. u\<lparr>partner_id := Some (user_id b)\<rparr>) (users db))"
  from h found ne have run: "connect_friend (friend_code b) (User a) db
      = (Inr b, db\<lparr>users := ?us\<rparr>)"
    by (simp add: connect_friend_def user_id_User partner_id_User)
  have us: "users (db\<lparr>users := ?us\<rparr>) = ?us" by simp
  from h ne have "pairing_inv (db\<lparr>users := ?us\<rparr>)"
    by - (rule pairing_inv_link(1) [of db a b, OF _ _ _ _ _ _ us], simp_all)
  moreover from h ne
  have "\<exists>a' b'. find_one (\<lambda>u. user_id u = user_id a) (users (db\<lparr>users := ?us\<rparr>)) = Some a'
           \<and> partner_id a' = Some (user_id b)
           \<and> find_one (\<lambda>u. user_id u = user_id b) (users (db\<lparr>users := ?us\<rparr>)) = Some b'
           \<and> partner_id b' = Some (user_id a)"
    by - (rule pairing_inv_link(2) [of db a b, OF _ _ _ _ _ _ us], simp_all)
  ultimately show "\<exists>db' a' b'. connect_friend (friend_code b) (User a) db = (Inr b, db')
         \<and> find_one (\<lambda>u. user_id u = user_id a) (users db') = Some a'
         \<and> partner_id a' = Some (user_id b)
         \<and> find_one (\<lambda>u. user_id u = user_id b) (users db') = Some b'
         \<and> partner_id b' = Some (user_id a)
         \<and> pairing_inv db'"
    using run by blast
next
  assume "pairing_inv db \<and> uuids_fresh rs db"
  then show "pairing_inv (run verify rs db)"
    by (simp add: pairing_inv_run)
next
  show "pairing_inv empty_store" by (rule pairing_inv_empty)
qed

theorem pairing_mutual_invariant_witness:
  "pairing_inv db_users \<and> ann \<in> set (users db_users) \<and> bob \<in> set (users db_users)
   \<and> ann \<noteq> bob \<and> \<not> truthy (partner_id ann) \<and> \<not> truthy (partner_id bob)
   \<and> (\<exists>db' a' b'. connect_friend (friend_code bob) (User ann) db_users = (Inr bob, db')
         \<and> find_one (\<lambda>u. user_id u = user_id ann) (users db') = Some a'
         \<and> partner_id a' = Some (user_id bob)
         \<and> find_one (\<lambda>u. user_id u = user_id bob) (users db') = Some b'
         \<and> partner_id b' = Some (user_id ann)
         \<and> pairing_inv db')
   \<and> uuids_fresh example_requests db_users
   \<and> pairing_inv (run (\<lambda>password hashed. True) example_requests db_users)"
proof -
  have inv: "pairing_inv db_users"
    by (simp add: pairing_inv_def example_defs)
  have h: "ann \<in> set (users db_users)" "bob \<in> set (users db_users)" "ann \<noteq> bob"
    "\<not> truthy (partner_id ann)" "\<not> truthy (partner_id bob)"
    by (simp_all add: example_defs)
  have fresh: "uuids_fresh example_requests db_users"
    by (simp add: uuids_fresh_def example_requests_def store_ids_def example_defs)
  note inst = pairing_mutual_invariant [of db_users ann bob example_requests
      "\<lambda>password hashed. True"]
  from inst inv h have "\<exists>db' a' b'.
      connect_friend (friend_code bob) (User ann) db_users = (Inr bob, db')
         \<and> find_one (\<lambda>u. user_id u = user_id ann) (users db') = Some a'
         \<and> partner_id a' = Some (user_id bob)
         \<and> find_one (\<lambda>u. user_id u = user_id bob) (users db') = Some b'
         \<and> partner_id b' = Some (user_id ann)
         \<and> pairing_inv db'"
    by blast
  moreover from inst inv fresh
  have "pairing_inv (run (\<lambda>password hashed. True) example_requests db_users)"
    by blast
  ultimately show ?thesis using inv h fresh by blast
qed

text \<open>
  C3. Completing item \<open>iid\<close> answers NotFound exactly when the store holds no item
  with that id that lists the caller in \<open>shared_with\<close> and is not yet completed.
  Completion is one-way: once a completion of \<open>iid\<close> has succeeded, the items
  invariant holds, the completion record is stored, and after any later requests that
  draw fresh identifiers every further attempt to complete \<open>iid\<close>, by either partner
  and with any photo, answers NotFound. Along every such run from a store satisfying the
  invariant (the empty store does) at most one completion record refers to \<open>iid\<close>.
\<close>

theorem complete_once:
  "(fst (complete_bucket_item iid ph nt cu u now db) = Inl NotFound \<longleftrightarrow>
      \<not> (\<exists>i \<in> set (bucket_items db).
            item_id i = iid \<and> user_id cu \<in> set (shared_with i) \<and> \<not> completed i))
   \<and> (items_inv db \<and> complete_bucket_item iid ph nt cu u now db = (Inr c, db1)
        \<and> uuids_fresh rs db1 \<longrightarrow>
          items_inv db1 \<and> c \<in> set (completed_items db1) \<and> c_item_id c = iid
        \<and> fst (complete_bucket_item iid ph' nt' cu' u' now' (run verify rs db1)) = Inl NotFound)
   \<and> (items_inv db \<and> uuids_fresh rs db \<longrightarrow>
          items_inv (run verify rs db)
        \<and> length (filter (\<lambda>c. c_item_id c = iid) (completed_items (run verify rs db))) \<le> 1)
   \<and> items_inv empty_store"
proof (intro conjI impI)
  show "fst (complete_bucket_item iid ph nt cu u now db) = Inl NotFound \<longleftrightarrow>
      \<not> (\<exists>i \<in> set (bucket_items db).
            item_id i = iid \<and> user_id cu \<in> set (shared_with i) \<and> \<not> completed i)"
    by (rule complete_NotFound_iff)
next
  assume h: "items_inv db \<and> complete_bucket_item iid ph nt cu u now db = (Inr c, db1)
        \<and> uuids_fresh rs db1"
  then have inv: "items_inv db"
    and run: "complete_bucket_item iid ph nt cu u now db = (Inr c, db1)"
    and fresh: "uuids_fresh rs db1"
    by simp_all
  from inv run show "items_inv db1" by (rule complete_success(1))
  from inv run show c: "c \<in> set (completed_items db1)" by (rule complete_success(3))
  from inv run show ci: "c_item_id c = iid" by (rule complete_success(4))
  from inv run have flagged: "\<forall>j \<in> set (bucket_items db1). item_id j = iid \<longrightarrow> completed j"
    by (rule complete_success(2))
  from c ci have "iid \<in> set (store_ids db1)"
    by (auto simp: store_ids_def)
  with fresh have notdrawn: "iid \<notin> set (concat (map (\<lambda>(now, r). new_ids r) rs))"
    unfolding uuids_fresh_def Let_def by blast
  have "\<forall>j \<in> set (bucket_items (run verify rs db1)). item_id j = iid \<longrightarrow> completed j"
  proof (rule bucket_items_run_all [OF flagged])
    fix j :: bucket_item
    assume "item_id j = iid \<longrightarrow> completed j"
    then show "item_id (j\<lparr>completed := True\<rparr>) = iid \<longrightarrow> completed (j\<lparr>completed := True\<rparr>)"
      by simp
  next
    fix new :: bucket_item
    assume "item_id new \<in> set (concat (map (\<lambda>(now, r). new_ids r) rs))"
    with notdrawn have "item_id new \<noteq> iid" by blast
    then show "item_id new = iid \<longrightarrow> completed new" by simp
  qed
  then have "\<not> (\<exists>i \<in> set (bucket_items (run verify rs db1)).
      item_id i = iid \<and> user_id cu' \<in> set (shared_with i) \<and> \<not> completed i)"
    by blast
  then show "fst (complete_bucket_item iid ph' nt' cu' u' now' (run verify rs db1)) = Inl NotFound"
    by (simp add: complete_NotFound_iff)
next
  assume h: "items_inv db \<and> uuids_fresh rs db"
  then show inv: "items_inv (run verify rs db)"
    by (simp add: items_inv_run)
  then have "distinct (map c_item_id (completed_items (run verify rs db)))"
    by (simp add: items_inv_def)
  then show "length (filter (\<lambda>c. c_item_id c = iid) (completed_items (run verify rs db))) \<le> 1"
    by (rule distinct_key_count)
next
  show "items_inv empty_store" by (rule items_inv_empty)
qed

theorem complete_once_witness:
  "items_inv db_list
   \<and> complete_bucket_item ''item_2'' ''P2'' None (User cat) ''cccc0000dddd1111'' 30 db_list
       = (Inr sushi_done, db_done)
   \<and> uuids_fresh example_requests db_done
   \<and> items_inv db_done
   \<and> fst (complete_bucket_item ''item_2'' ''P3'' None (User dan) ''eeee0000ffff1111'' 40
            (run (\<lambda>password hashed. True) example_requests db_done)) = Inl NotFound
   \<and> items_inv (run (\<lambda>password hashed. True) example_requests db_done)"
proof -
  have inv: "items_inv db_list"
    by (simp add: items_inv_def db_list_def sushi_def example_defs)
  have run: "complete_bucket_item ''item_2'' ''P2'' None (User cat) ''cccc0000dddd1111'' 30
      db_list = (Inr sushi_done, db_done)"
    by (simp add: complete_bucket_item_def Let_def insert_one_def db_list_def db_done_def sushi_def
        sushi_done_def example_defs)
  have fresh: "uuids_fresh example_requests db_done"
    by (simp add: uuids_fresh_def example_requests_def store_ids_def db_done_def sushi_def
        sushi_done_def example_defs)
  note first = complete_once [where iid = "''item_2''" and ph = "''P2''" and nt = None
      and cu = "User cat" and u = "''cccc0000dddd1111''" and now = 30 and db = db_list
      and c = sushi_done and ?db1.0 = db_done and rs = example_requests
      and ph' = "''P3''" and nt' = None and cu' = "User dan"
      and u' = "''eeee0000ffff1111''" and now' = 40 and verify = "\<lambda>password hashed. True"]
  from first inv run fresh have a: "items_inv db_done"
    "fst (complete_bucket_item ''item_2'' ''P3'' None (User dan) ''eeee0000ffff1111'' 40
            (run (\<lambda>password hashed. True) example_requests db_done)) = Inl NotFound"
    by blast+
  note second = complete_once [where db = db_done and rs = example_requests
      and verify = "\<lambda>password hashed. True"]
  from second a(1) fresh
  have "items_inv (run (\<lambda>password hashed. True) example_requests db_done)"
    by blast
  with inv run fresh a show ?thesis by blast
qed

text \<open>
  C4. Creating an item answers NoPartner when the caller's stored document has no
  partner. When it succeeds, the stored document has a nonempty partner id \<open>p\<close>, the
  new item is appended with \<open>shared_with = [caller, p]\<close> (two different users under the
  pairing invariant), and no later request changes the \<open>shared_with\<close> of an item with
  that id, provided the id was new and is not drawn again.
\<close>

theorem create_shared_with:
  "(find_one (\<lambda>x. user_id x = user_id cu) (users db) = Some d \<and> \<not> truthy (partner_id d)
      \<longrightarrow> create_bucket_item t c cu u now db = (Inl NoPartner, db))
   \<and> (create_bucket_item t c cu u now db = (Inr item, db1) \<longrightarrow>
        (\<exists>d p. find_one (\<lambda>x. user_id x = user_id cu) (users db) = Some d
           \<and> partner_id d = Some p \<and> p \<noteq> []
           \<and> shared_with item = [user_id cu, p] \<and> (pairing_inv db \<longrightarrow> p \<noteq> user_id cu))
        \<and> bucket_items db1 = bucket_items db @ [item]
        \<and> (item_id item \<notin> set (map item_id (bucket_items db))
            \<and> item_id item \<notin> set (concat (map (\<lambda>(now, r). new_ids r) rs))
            \<longrightarrow> (\<forall>j \<in> set (bucket_items (run verify rs db1)).
                   item_id j = item_id item \<longrightarrow> shared_with j = shared_with item)))"
proof (intro conjI impI)
  assume "find_one (\<lambda>x. user_id x = user_id cu) (users db) = Some d \<and> \<not> truthy (partner_id d)"
  then show "create_bucket_item t c cu u now db = (Inl NoPartner, db)"
    by (cases "partner_id d") (simp_all add: create_bucket_item_def)
next
  assume run: "create_bucket_item t c cu u now db = (Inr item, db1)"
  then obtain d where d: "find_one (\<lambda>x. user_id x = user_id cu) (users db) = Some d"
    by (cases "find_one (\<lambda>x. user_id x = user_id cu) (users db)")
      (simp_all add: create_bucket_item_def)
  with run obtain p where p: "partner_id d = Some p" "p \<noteq> []"
    by (cases "partner_id d") (auto simp: create_bucket_item_def split: if_splits)
  from run d p have item: "shared_with item = [user_id cu, p]"
    and db1: "bucket_items db1 = bucket_items db @ [item]"
    by (auto simp: create_bucket_item_def Let_def insert_one_def)
  from d have dm: "d \<in> set (users db)" "user_id d = user_id cu"
    by (auto dest: find_one_Some)
  have "p \<noteq> user_id cu" if "pairing_inv db"
  proof -
    from that dm(1) have "case partner_id d of None \<Rightarrow> True
        | Some p \<Rightarrow> p \<noteq> user_id d
            \<and> (\<exists>v \<in> set (users db). user_id v = p \<and> partner_id v = Some (user_id d))"
      unfolding pairing_inv_def by blast
    with p(1) dm(2) show ?thesis by simp
  qed
  with d p item
  show "\<exists>d p. find_one (\<lambda>x. user_id x = user_id cu) (users db) = Some d
           \<and> partner_id d = Some p \<and> p \<noteq> []
           \<and> shared_with item = [user_id cu, p] \<and> (pairing_inv db \<longrightarrow> p \<noteq> user_id cu)"
    by blast
  from db1 show "bucket_items db1 = bucket_items db @ [item]" .
  assume fresh: "item_id item \<notin> set (map item_id (bucket_items db))
      \<and> item_id item \<notin> set (concat (map (\<lambda>(now, r). new_ids r) rs))"
  have start: "\<forall>j \<in> set (bucket_items db1).
      item_id j = item_id item \<longrightarrow> shared_with j = shared_with item"
  proof (intro ballI impI)
    fix j :: bucket_item
    assume j: "j \<in> set (bucket_items db1)" and same: "item_id j = item_id item"
    from fresh have "item_id item \<notin> item_id ` set (bucket_items db)" by simp
    with same have "j \<notin> set (bucket_items db)" by (metis imageI)
    with j db1 have "j = item" by simp
    then show "shared_with j = shared_with item" by simp
  qed
  show "\<forall>j \<in> set (bucket_items (run verify rs db1)).
      item_id j = item_id item \<longrightarrow> shared_with j = shared_with item"
  proof (rule bucket_items_run_all [OF start])
    fix j :: bucket_item
    assume "item_id j = item_id item \<longrightarrow> shared_with j = shared_with item"
    then show "item_id (j\<lparr>completed := True\<rparr>) = item_id item
        \<longrightarrow> shared_with (j\<lparr>completed := True\<rparr>) = shared_with item"
      by simp
  next
    fix new :: bucket_item
    assume "item_id new \<in> set (concat (map (\<lambda>(now, r). new_ids r) rs))"
    moreover from fresh
    have "item_id item \<notin> set (concat (map (\<lambda>(now, r). new_ids r) rs))"
      by (rule conjunct2)
    ultimately have "item_id new \<noteq> item_id item" by metis
    then show "item_id new = item_id item \<longrightarrow> shared_with new = shared_with item" by simp
  qed
qed

theorem create_shared_with_witness:
  "find_one (\<lambda>x. user_id x = user_id (User ann)) (users db_users) = Some ann
   \<and> \<not> truthy (partner_id ann)
   \<and> create_bucket_item ''Visit Paris'' ''Travel'' (User ann) ''aaaabbbbccccdddd'' 7 db_users
       = (Inl NoPartner, db_users)
   \<and> create_bucket_item ''Visit Paris'' ''Travel'' (User cat) ''aaaabbbbccccdddd'' 7 db_users
       = (Inr paris_new, db_created)
   \<and> shared_with paris_new = [''user_c'', ''user_d'']
   \<and> item_id paris_new \<notin> set (map item_id (bucket_items db_users))
   \<and> item_id paris_new \<notin> set (concat (map (\<lambda>(now, r). new_ids r) later_requests))
   \<and> list_all (\<lambda>j. item_id j = item_id paris_new \<longrightarrow> shared_with j = shared_with paris_new)
        (bucket_items (run (\<lambda>password hashed. True) later_requests db_created))"
proof -
  have ann: "find_one (\<lambda>x. user_id x = user_id (User ann)) (users db_users) = Some ann"
      "\<not> truthy (partner_id ann)"
    by (simp_all add: example_defs)
  have run: "create_bucket_item ''Visit Paris'' ''Travel'' (User cat) ''aaaabbbbccccdddd'' 7
      db_users = (Inr paris_new, db_created)"
    by (simp add: create_bucket_item_def Let_def insert_one_def paris_new_def db_created_def
        example_defs)
  have fresh: "item_id paris_new \<notin> set (map item_id (bucket_items db_users))"
      "item_id paris_new \<notin> set (concat (map (\<lambda>(now, r). new_ids r) later_requests))"
    by (simp_all add: paris_new_def later_requests_def example_defs)
  have sw: "shared_with paris_new = [''user_c'', ''user_d'']"
    by (simp add: paris_new_def)
  note refused = create_shared_with [where cu = "User ann" and db = db_users and d = ann
      and t = "''Visit Paris''" and c = "''Travel''" and u = "''aaaabbbbccccdddd''" and now = 7]
  from refused ann have no: "create_bucket_item ''Visit Paris'' ''Travel'' (User ann)
      ''aaaabbbbccccdddd'' 7 db_users = (Inl NoPartner, db_users)"
    by blast
  note made = create_shared_with [where cu = "User cat" and db = db_users
      and t = "''Visit Paris''" and c = "''Travel''" and u = "''aaaabbbbccccdddd''" and now = 7
      and item = paris_new and ?db1.0 = db_created and rs = later_requests
      and verify = "\<lambda>password hashed. True"]
  from made run fresh
  have "\<forall>j \<in> set (bucket_items (run (\<lambda>password hashed. True) later_requests db_created)).
      item_id j = item_id paris_new \<longrightarrow> shared_with j = shared_with paris_new"
    by blast
  then have "list_all (\<lambda>j. item_id j = item_id paris_new \<longrightarrow> shared_with j = shared_with paris_new)
      (bucket_items (run (\<lambda>password hashed. True) later_requests db_created))"
    by (simp add: list_all_iff)
  with ann no run sw fresh show ?thesis by blast
qed

end
